theory Spec2Isabelle
  imports Main "HOL-Library.List_Lexorder" "HOL-Library.Char_ord"
begin

section \<open>Data of \<^verbatim>\<open>server/main.py\<close>\<close>

text \<open>
  The program is three Flask handlers that shell out to git, a catalog updater and a
  code generator. The handlers are embedded as functions from a request and a
  \<open>world\<close> to a result and the world after the call. The world holds what the
  handlers read (the Datastore records, the cloned catalog, the generator's output, the
  date, the remote repository) and what they change (the clone of the client library,
  the scratch directory, the remote), and a trace of every effect in the order performed.

  Text is a \<open>string\<close>, a list of characters; a character is a code point below 256.
\<close>

text \<open>The namedtuple \<^verbatim>\<open>GitHubAccount\<close>.\<close>

record GitHubAccount =
  acc_name :: string
  acc_email :: string
  username :: string
  personal_access_token :: string

text \<open>
  A Discovery document as the update job reads it: \<^verbatim>\<open>root['id']\<close>,
  \<^verbatim>\<open>root['name']\<close>, \<^verbatim>\<open>root['version']\<close>. The three keys are
  present in every document (the interface of the catalog); the rest of the JSON is not read.
\<close>

record descriptor =
  doc_id :: string
  doc_name :: string
  doc_version :: string

text \<open>The request: its header list. Only \<^verbatim>\<open>request.headers.get\<close> is used.\<close>

record request =
  headers :: "(string \<times> string) list"

text \<open>A directory entry is a file or a directory, with opaque content.\<close>

datatype node = File string | Directory string

type_synonym tree = "(string \<times> node) list"

datatype repo = DiscoveryArtifactManager | PhpClientServices

text \<open>
  The external commands, one constructor for each command line the handlers build.
  \<open>GitCommit r n e m\<close> is \<^verbatim>\<open>git -c user.name=n -c user.email=e commit -m m\<close> in the
  clone of \<open>r\<close>; \<open>RmRf s\<close>, \<open>Cp s\<close> and \<open>CpR s\<close> are the three commands of the
  replace step for the service name \<open>s\<close>.
\<close>

datatype cmd =
    GitClone repo
  | LnS
  | GoRunUpdatedisco
  | GitAdd string
  | GitCommit repo string string string
  | GitRemoteAdd repo string string
  | GitPush repo
  | Virtualenv
  | SetupInstall
  | GenerateLibrary string
  | RmRf string
  | Cp string
  | CpR string
  | GitResetSoft nat
  | GitDescribe
  | GitLog string
  | GitTag string
  | GitPushTags

datatype event = DatastoreQuery | TemporaryDirectory | Makedirs | Run cmd

datatype error =
    HTTPException nat
  | IndexError
  | KeyError string
  | CalledProcessError int cmd
  | Exception string

record world =
  accounts :: "GitHubAccount list"
  broken :: "cmd \<Rightarrow> bool"
  discoveries_changed :: bool
  index_items :: "(string \<times> bool) list"
  discovery_documents :: "(string \<times> descriptor) list"
  generator :: "string \<Rightarrow> tree option"
  today :: string
  describe_output :: string
  log_output :: "string \<Rightarrow> string"
  remote :: "(string \<times> tree) list"
  remote_tags :: "string list"
  history :: "(string \<times> tree) list"
  tags :: "string list"
  service_dir :: tree
  tmp_dir2 :: tree
  trace :: "event list"

text \<open>
  \<open>accounts\<close>: the result of the Datastore query. \<open>broken\<close>: the commands that
  fail for a reason outside the model (network, disk, a command line that
  \<^verbatim>\<open>shlex.split\<close> cannot split); each such failure is an exit status 1. \<open>index_items\<close>:
  \<^verbatim>\<open>id\<close> and \<^verbatim>\<open>preferred\<close> of each item of \<^verbatim>\<open>discoveries/index.json\<close>.
  \<open>discovery_documents\<close>: the files matched by \<^verbatim>\<open>discoveries/*.json\<close>, base name and
  parsed content, in glob order. \<open>generator f\<close>: the listing of the output directory of
  \<^verbatim>\<open>generate_library --input f\<close>, in \<^verbatim>\<open>os.listdir\<close> order, \<open>None\<close> when the
  generator exits non-zero. \<open>remote\<close> and \<open>history\<close>: the commits of the client library's
  branch on GitHub and in the clone, newest first, each with its message and its tree
  under \<^verbatim>\<open>src/Google/Service\<close>. \<open>service_dir\<close>: the working copy of that directory.
\<close>

section \<open>Files and git\<close>

definition path_exists :: "string \<Rightarrow> tree \<Rightarrow> bool" where
  "path_exists p t = (map_of t p \<noteq> None)"

definition remove_path :: "string \<Rightarrow> tree \<Rightarrow> tree" where
  "remove_path p t = filter (\<lambda>e. fst e \<noteq> p) t"

definition write_path :: "string \<Rightarrow> node \<Rightarrow> tree \<Rightarrow> tree" where
  "write_path p n t = (p, n) # remove_path p t"

definition head_tree :: "(string \<times> tree) list \<Rightarrow> tree" where
  "head_tree h = (case h of [] \<Rightarrow> [] | c # _ \<Rightarrow> snd c)"

text \<open>Two listings are the same tree when they hold the same node at every path.\<close>

definition same_tree :: "tree \<Rightarrow> tree \<Rightarrow> bool" where
  "same_tree s t = list_all (\<lambda>p. map_of s p = map_of t p) (map fst s @ map fst t)"

text \<open>
  What each command does when it runs normally, with its exit status.
  \<^verbatim>\<open>git commit\<close> exits non-zero when there is nothing to commit; \<^verbatim>\<open>cp\<close> without
  \<^verbatim>\<open>-r\<close> refuses a directory and both \<^verbatim>\<open>cp\<close> fail on a missing source;
  \<^verbatim>\<open>git reset --soft HEAD~n\<close> needs \<open>n\<close> ancestors; \<^verbatim>\<open>git tag\<close> refuses a tag
  that exists.
\<close>

fun effect :: "cmd \<Rightarrow> world \<Rightarrow> int \<times> world" where
  "effect (GitClone PhpClientServices) w =
     (0, w\<lparr>history := remote w, tags := remote_tags w, service_dir := head_tree (remote w)\<rparr>)"
| "effect (GenerateLibrary f) w =
     (case generator w f of None \<Rightarrow> (1, w) | Some out \<Rightarrow> (0, w\<lparr>tmp_dir2 := out\<rparr>))"
| "effect (RmRf s) w =
     (0, w\<lparr>service_dir := remove_path (s @ ''.php'') (remove_path s (service_dir w))\<rparr>)"
| "effect (Cp s) w =
     (case map_of (tmp_dir2 w) (s @ ''.php'') of
        Some (File c) \<Rightarrow> (0, w\<lparr>service_dir := write_path (s @ ''.php'') (File c) (service_dir w)\<rparr>)
      | _ \<Rightarrow> (1, w))"
| "effect (CpR s) w =
     (case map_of (tmp_dir2 w) s of
        Some n \<Rightarrow> (0, w\<lparr>service_dir := write_path s n (service_dir w)\<rparr>)
      | None \<Rightarrow> (1, w))"
| "effect (GitCommit PhpClientServices n e m) w =
     (if same_tree (service_dir w) (head_tree (history w)) then (1, w)
      else (0, w\<lparr>history := (m, service_dir w) # history w\<rparr>))"
| "effect (GitCommit DiscoveryArtifactManager n e m) w =
     (if discoveries_changed w then (0, w) else (1, w))"
| "effect (GitResetSoft n) w =
     (if n < length (history w) then (0, w\<lparr>history := drop n (history w)\<rparr>) else (128, w))"
| "effect (GitPush PhpClientServices) w = (0, w\<lparr>remote := history w\<rparr>)"
| "effect (GitTag t) w =
     (if t \<in> set (tags w) then (128, w) else (0, w\<lparr>tags := t # tags w\<rparr>))"
| "effect GitPushTags w = (0, w\<lparr>remote_tags := tags w\<rparr>)"
| "effect c w = (0, w)"

text \<open>
  \<^verbatim>\<open>_call(cmd, check)\<close>: run the command, return its exit status, and with
  \<^verbatim>\<open>check=True\<close> raise \<^verbatim>\<open>CalledProcessError\<close> on a non-zero status.
\<close>

definition call :: "cmd \<Rightarrow> bool \<Rightarrow> world \<Rightarrow> (error + int) \<times> world" where
  "call c check w =
     (let w1 = w\<lparr>trace := trace w @ [Run c]\<rparr>;
          (rc, w2) = (if broken w c then (1, w1) else effect c w1)
      in if check \<and> rc \<noteq> 0 then (Inl (CalledProcessError rc c), w2) else (Inr rc, w2))"

text \<open>\<^verbatim>\<open>subprocess.check_output\<close> of the two read-only git commands of the release job.\<close>

definition check_output :: "cmd \<Rightarrow> world \<Rightarrow> (error + string) \<times> world" where
  "check_output c w =
     (let w1 = w\<lparr>trace := trace w @ [Run c]\<rparr>
      in if broken w c then (Inl (CalledProcessError 1 c), w1)
         else (Inr (case c of GitDescribe \<Rightarrow> describe_output w
                            | GitLog t \<Rightarrow> log_output w t
                            | _ \<Rightarrow> ''''), w1))"

text \<open>Sequencing: an exception ends the handler with the world as it is at that point.\<close>

definition and_then ::
  "(world \<Rightarrow> (error + 'a) \<times> world) \<Rightarrow> ('a \<Rightarrow> world \<Rightarrow> (error + 'b) \<times> world)
     \<Rightarrow> world \<Rightarrow> (error + 'b) \<times> world" where
  "and_then m f w = (case m w of (Inl e, w1) \<Rightarrow> (Inl e, w1) | (Inr x, w1) \<Rightarrow> f x w1)"

definition return :: "'a \<Rightarrow> world \<Rightarrow> (error + 'a) \<times> world" where
  "return x w = (Inr x, w)"

text \<open>
  \<^verbatim>\<open>with TemporaryDirectory() as tmp_dir\<close>: the clones live in it and are gone on
  every exit path. \<open>with_tmp_dir2\<close> is the inner one the generator writes to.
\<close>

definition with_tmp_dir ::
  "(world \<Rightarrow> (error + 'a) \<times> world) \<Rightarrow> world \<Rightarrow> (error + 'a) \<times> world" where
  "with_tmp_dir body w =
     (case body (w\<lparr>trace := trace w @ [TemporaryDirectory]\<rparr>) of
        (r, w1) \<Rightarrow> (r, w1\<lparr>history := [], tags := [], service_dir := [], tmp_dir2 := []\<rparr>))"

definition with_tmp_dir2 ::
  "(world \<Rightarrow> (error + 'a) \<times> world) \<Rightarrow> world \<Rightarrow> (error + 'a) \<times> world" where
  "with_tmp_dir2 body w =
     (case body (w\<lparr>trace := trace w @ [TemporaryDirectory], tmp_dir2 := []\<rparr>) of
        (r, w1) \<Rightarrow> (r, w1\<lparr>tmp_dir2 := []\<rparr>))"

text \<open>\<^verbatim>\<open>_get_github_account\<close>: the first record of the query, \<^verbatim>\<open>IndexError\<close> if none.\<close>

definition get_github_account :: "world \<Rightarrow> (error + GitHubAccount) \<times> world" where
  "get_github_account w =
     (let w1 = w\<lparr>trace := trace w @ [DatastoreQuery]\<rparr>
      in case accounts w of [] \<Rightarrow> (Inl IndexError, w1) | account # _ \<Rightarrow> (Inr account, w1))"

text \<open>
  \<^verbatim>\<open>request.headers.get(key)\<close>. Flask reads the headers from the WSGI environment,
  where a header is stored under \<^verbatim>\<open>HTTP_\<close> and its name in upper case with every
  \<^verbatim>\<open>-\<close> replaced by \<^verbatim>\<open>_\<close>, and the lookup puts the key in the same form
  (\<^verbatim>\<open>key.upper().replace('-', '_')\<close>). So a header is found without regard to case
  and with \<^verbatim>\<open>-\<close> and \<^verbatim>\<open>_\<close> identified: \<^verbatim>\<open>x_appengine_cron\<close> is found
  under the key \<^verbatim>\<open>X-Appengine-Cron\<close>. The result is \<open>None\<close> when no header of the
  request has that form; the handlers only test for \<open>None\<close>.

  \<open>str_upper\<close> is \<^verbatim>\<open>str.upper\<close> on one character, as code points: the letters of
  ASCII and Latin-1, \<^verbatim>\<open>U+00B5\<close> to \<^verbatim>\<open>U+039C\<close>, \<^verbatim>\<open>U+00DF\<close> to \<^verbatim>\<open>SS\<close>,
  \<^verbatim>\<open>U+00FF\<close> to \<^verbatim>\<open>U+0178\<close>.
\<close>

definition str_upper :: "char \<Rightarrow> nat list" where
  "str_upper c =
     (let n = (of_char c :: nat)
      in if 0x61 \<le> n \<and> n \<le> 0x7A then [n - 0x20]
         else if n = 0xB5 then [0x39C]
         else if n = 0xDF then [0x53, 0x53]
         else if 0xE0 \<le> n \<and> n \<le> 0xFE \<and> n \<noteq> 0xF7 then [n - 0x20]
         else if n = 0xFF then [0x178]
         else [n])"

definition environ_key :: "string \<Rightarrow> nat list" where
  "environ_key name = map (\<lambda>n. if n = 0x2D then 0x5F else n) (concat (map str_upper name))"

definition headers_get :: "request \<Rightarrow> string \<Rightarrow> string option" where
  "headers_get req key =
     map_of (map (\<lambda>h. (environ_key (fst h), snd h)) (headers req)) (environ_key key)"

section \<open>\<^verbatim>\<open>/cron/discoveries\<close>\<close>


section \<open>\<^verbatim>\<open>/cron/clients/php/update\<close>\<close>

text \<open>The mutable variables of the loop over the Discovery documents.\<close>

record run_state =
  processed :: "string set"
  added :: "string set"
  updated :: "string set"
  commit_count :: nat
  returncode :: int

definition initial_state :: run_state where
  "initial_state = \<lparr>processed = {}, added = {}, updated = {}, commit_count = 0, returncode = - 1\<rparr>"

text \<open>
  The dictionary \<^verbatim>\<open>preferred\<close>: one assignment for each item of the index, in order,
  then the two assignments that follow the loop.
\<close>

definition load_preferred :: "(string \<times> bool) list \<Rightarrow> (string \<rightharpoonup> bool)" where
  "load_preferred items =
     ((foldl (\<lambda>preferred api. preferred(fst api \<mapsto> snd api)) Map.empty items)
        (''admin:directory_v1'' \<mapsto> True))(''admin:datatransfer_v1'' \<mapsto> True)"

text \<open>
  \<^verbatim>\<open>os.path.splitext\<close> on a base name: split at the last dot, unless only dots
  precede it.
\<close>

definition splitext :: "string \<Rightarrow> string \<times> string" where
  "splitext p =
     (if CHR ''.'' \<in> set p then
        (let dotIndex = length p - 1 - length (takeWhile (\<lambda>c. c \<noteq> CHR ''.'') (rev p))
         in if list_ex (\<lambda>c. c \<noteq> CHR ''.'') (take dotIndex p)
            then (take dotIndex p, drop dotIndex p) else (p, []))
      else (p, []))"

text \<open>
  The body of \<^verbatim>\<open>with TemporaryDirectory() as tmp_dir2\<close>: generate, derive the service
  name from the first entry of the listing, record whether the service file exists, then
  delete and copy. The result is \<^verbatim>\<open>service_exists\<close>.
\<close>

definition generate_service :: "string \<Rightarrow> world \<Rightarrow> (error + bool) \<times> world" where
  "generate_service filename =
     with_tmp_dir2 (
       and_then (call (GenerateLibrary filename) True) (\<lambda>_ w.
         case map fst (tmp_dir2 w) of
           [] \<Rightarrow> (Inl IndexError, w)
         | d # _ \<Rightarrow>
            (let service_name = fst (splitext d);
                 service_exists = path_exists (service_name @ ''.php'') (service_dir w)
             in and_then (call (RmRf service_name) True) (\<lambda>_.
                and_then (call (Cp service_name) True) (\<lambda>_.
                and_then (call (CpR service_name) True) (\<lambda>_.
                return service_exists))) w)))"

text \<open>One iteration of \<^verbatim>\<open>for filename in discovery_document_filenames\<close>.\<close>

definition process_document ::
  "GitHubAccount \<Rightarrow> (string \<rightharpoonup> bool) \<Rightarrow> string \<times> descriptor \<Rightarrow> run_state \<Rightarrow> world
     \<Rightarrow> (error + run_state) \<times> world" where
  "process_document account preferred doc st w =
     (let filename = fst doc; root = snd doc; id' = doc_id root; name = doc_name root
      in if id' \<in> processed st then (Inr st, w)
         else
           (let st1 = st\<lparr>processed := insert id' (processed st)\<rparr>
            in if name = ''discovery'' then (Inr st1, w)
               else case preferred id' of
                 None \<Rightarrow> (Inl (KeyError id'), w)
               | Some p \<Rightarrow>
                   if \<not> p then (Inr st1, w)
                   else
                     and_then (generate_service filename) (\<lambda>service_exists.
                     and_then (call (GitAdd ''src'') True) (\<lambda>_.
                     and_then (call (GitCommit PhpClientServices (acc_name account)
                                       (acc_email account) []) False) (\<lambda>rc.
                       if rc = 0 then
                         return (if \<not> service_exists
                                 then st1\<lparr>added := insert id' (added st1),
                                          commit_count := commit_count st1 + 1, returncode := 0\<rparr>
                                 else st1\<lparr>updated := insert id' (updated st1),
                                          commit_count := commit_count st1 + 1, returncode := 0\<rparr>)
                       else return st1))) w))"

fun process_documents ::
  "GitHubAccount \<Rightarrow> (string \<rightharpoonup> bool) \<Rightarrow> (string \<times> descriptor) list \<Rightarrow> run_state \<Rightarrow> world
     \<Rightarrow> (error + run_state) \<times> world" where
  "process_documents account preferred [] st w = (Inr st, w)"
| "process_documents account preferred (doc # docs) st w =
     (case process_document account preferred doc st w of
        (Inl e, w1) \<Rightarrow> (Inl e, w1)
      | (Inr st1, w1) \<Rightarrow> process_documents account preferred docs st1 w1)"

definition newline :: string where
  "newline = [CHR 0x0A]"

text \<open>\<^verbatim>\<open>for id_ in ids: commitmsg += '- {}\n'.format(id_)\<close>\<close>

fun add_ids :: "string \<Rightarrow> string list \<Rightarrow> string" where
  "add_ids commitmsg [] = commitmsg"
| "add_ids commitmsg (i # ids) = add_ids (commitmsg @ ''- '' @ i @ newline) ids"

definition commit_message :: "string \<Rightarrow> string set \<Rightarrow> string set \<Rightarrow> string" where
  "commit_message date_today added_ids updated_ids =
     (let commitmsg = ''Autogenerated update ('' @ date_today @ '')'' @ newline;
          commitmsg = (if added_ids \<noteq> {}
                       then add_ids (commitmsg @ newline @ ''Add:'' @ newline)
                              (sorted_list_of_set added_ids)
                       else commitmsg);
          commitmsg = (if updated_ids \<noteq> {}
                       then add_ids (commitmsg @ newline @ ''Update:'' @ newline)
                              (sorted_list_of_set updated_ids)
                       else commitmsg)
      in commitmsg)"

text \<open>What follows the loop: \<^verbatim>\<open>if not returncode: ...\<close>, then \<^verbatim>\<open>return ''\<close>.\<close>

definition publish :: "GitHubAccount \<Rightarrow> run_state \<Rightarrow> world \<Rightarrow> (error + string) \<times> world" where
  "publish account st =
     (if returncode st = 0 then
        and_then (call (GitResetSoft (commit_count st)) True) (\<lambda>_ w.
          (let commitmsg = commit_message (today w) (added st) (updated st)
           in and_then (call (GitCommit PhpClientServices (acc_name account) (acc_email account)
                                commitmsg) True) (\<lambda>_.
              and_then (call (GitRemoteAdd PhpClientServices (username account)
                                (personal_access_token account)) True) (\<lambda>_.
              and_then (call (GitPush PhpClientServices) True) (\<lambda>_.
              return []))) w))
      else return [])"

text \<open>The handler up to the end of the loop, inside the temporary directory.\<close>

definition regenerate :: "GitHubAccount \<Rightarrow> world \<Rightarrow> (error + run_state) \<times> world" where
  "regenerate account =
     and_then (call (GitClone DiscoveryArtifactManager) True) (\<lambda>_.
     and_then (call (GitClone PhpClientServices) True) (\<lambda>_ w.
       (let preferred = load_preferred (index_items w);
            discovery_document_filenames =
              filter (\<lambda>doc. fst doc \<noteq> ''index.json'') (discovery_documents w)
        in and_then (call Virtualenv True) (\<lambda>_.
           and_then (call SetupInstall True) (\<lambda>_.
           process_documents account preferred discovery_document_filenames initial_state)) w)))"

definition cron_clients_php_update :: "request \<Rightarrow> world \<Rightarrow> (error + string) \<times> world" where
  "cron_clients_php_update req w =
     (if headers_get req ''X-Appengine-Cron'' = None then (Inl (HTTPException 403), w)
      else and_then get_github_account (\<lambda>account.
        with_tmp_dir (and_then (regenerate account) (publish account))) w)"

section \<open>\<^verbatim>\<open>/cron/clients/php/release\<close>\<close>

definition isdigit :: "char \<Rightarrow> bool" where
  "isdigit c = (c \<in> set ''0123456789'')"

text \<open>
  \<^verbatim>\<open>str.strip()\<close>: it removes the characters for which \<^verbatim>\<open>str.isspace\<close> holds.
  Below 256 these are the code points 9 to 13, 28 to 32, \<^verbatim>\<open>U+0085\<close> and
  \<^verbatim>\<open>U+00A0\<close>.
\<close>

definition isspace :: "char \<Rightarrow> bool" where
  "isspace c = (c \<in> set [CHR 0x09, CHR 0x0A, CHR 0x0B, CHR 0x0C, CHR 0x0D,
                          CHR 0x1C, CHR 0x1D, CHR 0x1E, CHR 0x1F, CHR 0x20,
                          CHR 0x85, CHR 0xA0])"

definition strip :: "string \<Rightarrow> string" where
  "strip s = rev (dropWhile isspace (rev (dropWhile isspace s)))"

text \<open>
  \<^verbatim>\<open>version_re.match\<close> for \<^verbatim>\<open>^(v[0-9]+)\.([0-9]+)$\<close>: group 1, group 2 and
  what follows the match (\<^verbatim>\<open>$\<close> also matches before a final newline).
\<close>

definition version_re_match :: "string \<Rightarrow> (string \<times> string \<times> string) option" where
  "version_re_match s =
     (case s of
        [] \<Rightarrow> None
      | c # r \<Rightarrow>
          if c \<noteq> CHR ''v'' then None
          else (let major = takeWhile isdigit r; r1 = dropWhile isdigit r
                in if major = [] then None
                   else case r1 of
                     [] \<Rightarrow> None
                   | c1 # r2 \<Rightarrow>
                       if c1 \<noteq> CHR ''.'' then None
                       else (let minor = takeWhile isdigit r2; r3 = dropWhile isdigit r2
                             in if minor = [] then None
                                else if r3 = [] \<or> r3 = newline
                                     then Some (CHR ''v'' # major, minor, r3)
                                     else None)))"

text \<open>
  \<^verbatim>\<open>int(s)\<close> on a string of digits and \<^verbatim>\<open>str(n)\<close> on a natural number.
  Python's integers are unbounded; the limit of 4300 digits that Python 3.11 put on these
  two conversions is not part of the model.
\<close>

definition digit_value :: "char \<Rightarrow> nat" where
  "digit_value c = of_char c - 48"

definition int_of_digits :: "string \<Rightarrow> nat" where
  "int_of_digits s = foldl (\<lambda>n c. 10 * n + digit_value c) 0 s"

definition digit_char :: "nat \<Rightarrow> char" where
  "digit_char d = char_of (48 + d)"

function str :: "nat \<Rightarrow> string" where
  "str n = (if n < 10 then [digit_char n] else str (n div 10) @ [digit_char (n mod 10)])"
  by pat_completeness auto
termination
  by (relation "measure (\<lambda>n. n)") auto

declare str.simps [simp del]

text \<open>
  \<^verbatim>\<open>version_re.sub(r'\1.{}'.format(new_minor_revision), latest_tag)\<close>: the match is
  replaced by group 1, a dot and the new minor revision; a string that does not match
  is returned as it is.
\<close>

definition version_re_sub :: "string \<Rightarrow> string \<Rightarrow> string" where
  "version_re_sub new_minor_revision s =
     (case version_re_match s of
        None \<Rightarrow> s
      | Some (g1, g2, rest) \<Rightarrow> g1 @ ''.'' @ new_minor_revision @ rest)"

definition pattern :: string where
  "pattern = [CHR 0x5E] @ ''(v[0-9]+)'' @ [CHR 0x5C] @ ''.([0-9]+)$''"

definition release :: "GitHubAccount \<Rightarrow> world \<Rightarrow> (error + string) \<times> world" where
  "release account =
     and_then (call (GitClone PhpClientServices) True) (\<lambda>_.
     and_then (check_output GitDescribe) (\<lambda>output.
       (let latest_tag = strip output
        in and_then (check_output (GitLog latest_tag)) (\<lambda>output.
             if output \<noteq> [] then
               (case version_re_match latest_tag of
                  None \<Rightarrow> (\<lambda>w. (Inl (Exception (''latest tag does not match the pattern ''
                                   @ [CHR 0x27] @ pattern @ [CHR 0x27] @ '': '' @ latest_tag)), w))
                | Some match \<Rightarrow>
                    (let minor_revision = fst (snd match);
                         new_minor_revision = str (int_of_digits minor_revision + 1);
                         new_version = version_re_sub new_minor_revision latest_tag
                     in and_then (call (GitTag new_version) True) (\<lambda>_.
                        and_then (call (GitRemoteAdd PhpClientServices (username account)
                                          (personal_access_token account)) True) (\<lambda>_.
                        and_then (call GitPushTags True) (\<lambda>_.
                        return [])))))
             else return []))))"

definition cron_clients_php_release :: "request \<Rightarrow> world \<Rightarrow> (error + string) \<times> world" where
  "cron_clients_php_release req w =
     (if headers_get req ''X-Appengine-Cron'' = None then (Inl (HTTPException 403), w)
      else and_then get_github_account (\<lambda>account. with_tmp_dir (release account)) w)"

section \<open>The specification's wording\<close>

text \<open>
  The summary message as the specification describes it: a section is a blank line, a
  heading and one line for each id, and is empty when there is no id.
\<close>

definition id_lines :: "string list \<Rightarrow> string" where
  "id_lines ids = concat (map (\<lambda>i. ''- '' @ i @ newline) ids)"

definition id_section :: "string \<Rightarrow> string list \<Rightarrow> string" where
  "id_section heading ids = (if ids = [] then [] else newline @ heading @ newline @ id_lines ids)"

section \<open>Example inputs\<close>

definition example_account :: GitHubAccount where
  "example_account = \<lparr>acc_name = ''bot'', acc_email = ''bot@example.com'', username = ''bot'',
     personal_access_token = ''secret''\<rparr>"

definition example_world :: world where
  "example_world = \<lparr>accounts = [example_account], broken = (\<lambda>c. False), discoveries_changed = False,
     index_items = [], discovery_documents = [], generator = (\<lambda>f. None), today = ''2017-06-01'',
     describe_output = ''v0.12'' @ newline, log_output = (\<lambda>t. ''0a1b2c3 Autogenerated update'' @ newline),
     remote = [], remote_tags = [''v0.12''], history = [], tags = [], service_dir = [], tmp_dir2 = [],
     trace = []\<rparr>"

definition quiet_world :: world where
  "quiet_world = example_world\<lparr>log_output := (\<lambda>t. [])\<rparr>"


definition padded_world :: world where
  "padded_world = example_world\<lparr>describe_output := ''v0.12'' @ [CHR 0xA0] @ newline\<rparr>"

definition cron_request :: request where
  "cron_request = \<lparr>headers = [(''X-Appengine-Cron'', ''true'')]\<rparr>"

section \<open>Auxiliary definitions for the update job\<close>

text \<open>
  The documents that pass the dedup guard, in the specification's words: of the
  documents with one id only the first is kept, and none whose id is in \<open>seen\<close>.
\<close>

fun first_by_id :: "string set \<Rightarrow> (string \<times> descriptor) list \<Rightarrow> (string \<times> descriptor) list" where
  "first_by_id seen [] = []"
| "first_by_id seen (doc # docs) =
     (if doc_id (snd doc) \<in> seen then first_by_id seen docs
      else doc # first_by_id (insert (doc_id (snd doc)) seen) docs)"

text \<open>
  The state after the commit attempt of an iteration (the \<^verbatim>\<open>if _call(cmd, ...) == 0\<close>
  block), as a function of the state \<open>st1\<close> before it, \<^verbatim>\<open>service_exists\<close> and the
  exit status.
\<close>

definition commit_outcome :: "string \<Rightarrow> run_state \<Rightarrow> bool \<Rightarrow> int \<Rightarrow> run_state" where
  "commit_outcome i st1 service_exists rc =
     (if rc = 0 then
        (if \<not> service_exists
         then st1\<lparr>added := insert i (added st1), commit_count := commit_count st1 + 1, returncode := 0\<rparr>
         else st1\<lparr>updated := insert i (updated st1), commit_count := commit_count st1 + 1, returncode := 0\<rparr>)
      else st1)"

text \<open>
  The service directory after \<^verbatim>\<open>rm -rf s.php s\<close>, \<^verbatim>\<open>cp s.php\<close> and \<^verbatim>\<open>cp -r s\<close>
  for a generated file with content \<open>c\<close> and a generated entry \<open>n\<close>.
\<close>

definition replaced :: "string \<Rightarrow> string \<Rightarrow> node \<Rightarrow> tree \<Rightarrow> tree" where
  "replaced s c n t =
     write_path s n (write_path (s @ ''.php'') (File c)
       (remove_path (s @ ''.php'') (remove_path s t)))"

text \<open>
  The invariant of the loop: classified ids have been processed, no id is in both sets,
  and \<^verbatim>\<open>returncode\<close> is 0 exactly when a commit has been counted.
\<close>

definition consistent_state :: "run_state \<Rightarrow> bool" where
  "consistent_state st \<longleftrightarrow>
     added st \<union> updated st \<subseteq> processed st \<and> added st \<inter> updated st = {} \<and>
     (if commit_count st = 0 then returncode st = - 1 else returncode st = 0)"

text \<open>The world right after \<^verbatim>\<open>git clone\<close> of the client library.\<close>

definition cloned :: "world \<Rightarrow> world" where
  "cloned w = w\<lparr>history := remote w, tags := remote_tags w, service_dir := head_tree (remote w)\<rparr>"

subsection \<open>An example catalog\<close>

definition doc_a :: "string \<times> descriptor" where
  "doc_a = (''a.json'', \<lparr>doc_id = ''a:v1'', doc_name = ''a'', doc_version = ''v1''\<rparr>)"

definition doc_a_copy :: "string \<times> descriptor" where
  "doc_a_copy = (''a-copy.json'', \<lparr>doc_id = ''a:v1'', doc_name = ''acopy'', doc_version = ''v1''\<rparr>)"

definition doc_b :: "string \<times> descriptor" where
  "doc_b = (''b.json'', \<lparr>doc_id = ''b:v1'', doc_name = ''b'', doc_version = ''v1''\<rparr>)"

definition doc_c :: "string \<times> descriptor" where
  "doc_c = (''c.json'', \<lparr>doc_id = ''c:v1'', doc_name = ''c'', doc_version = ''v1''\<rparr>)"

definition doc_discovery :: "string \<times> descriptor" where
  "doc_discovery = (''discovery.json'',
     \<lparr>doc_id = ''discovery:v1'', doc_name = ''discovery'', doc_version = ''v1''\<rparr>)"

definition catalog_world :: world where
  "catalog_world = example_world\<lparr>
     index_items := [(''a:v1'', True), (''b:v1'', False), (''discovery:v1'', True)],
     discovery_documents :=
       [doc_a, doc_a_copy, doc_b, doc_discovery,
        (''index.json'', \<lparr>doc_id = [], doc_name = [], doc_version = []\<rparr>)],
     generator := (\<lambda>f. if f = ''a.json''
                        then Some [(''A.php'', File ''<?php A''), (''A'', Directory ''A/*'')]
                        else None),
     remote := [(''Initial commit'', [])]\<rparr>"

definition orphan_world :: world where
  "orphan_world = catalog_world\<lparr>discovery_documents := [doc_a, doc_c, doc_b]\<rparr>"

definition state_a :: run_state where
  "state_a = \<lparr>processed = {''a:v1''}, added = {''a:v1''}, updated = {}, commit_count = 1, returncode = 0\<rparr>"

text \<open>The fields of the world that the update job reads and the remote: equal in both worlds.\<close>

definition same_inputs :: "world \<Rightarrow> world \<Rightarrow> bool" where
  "same_inputs w w1 \<longleftrightarrow>
     accounts w1 = accounts w \<and> broken w1 = broken w \<and> discoveries_changed w1 = discoveries_changed w
     \<and> index_items w1 = index_items w \<and> discovery_documents w1 = discovery_documents w
     \<and> generator w1 = generator w \<and> today w1 = today w \<and> describe_output w1 = describe_output w
     \<and> log_output w1 = log_output w \<and> remote w1 = remote w \<and> remote_tags w1 = remote_tags w"

text \<open>The example catalog when the remote already holds what the generator produces.\<close>

definition settled_world :: world where
  "settled_world = catalog_world\<lparr>remote :=
     [(''Autogenerated update'', [(''A'', Directory ''A/*''), (''A.php'', File ''<?php A'')]),
      (''Initial commit'', [])]\<rparr>"

definition state_ab :: run_state where
  "state_ab = \<lparr>processed = {''b:v1'', ''a:v1''}, added = {''a:v1''}, updated = {}, commit_count = 1,
     returncode = 0\<rparr>"

text \<open>
  The events of publishing: the soft reset, a commit with a message, adding the remote,
  a push, a tag. The commit of one iteration has the empty message.
\<close>

fun publishing :: "event \<Rightarrow> bool" where
  "publishing (Run (GitResetSoft n)) = True"
| "publishing (Run (GitRemoteAdd r u t)) = True"
| "publishing (Run (GitPush r)) = True"
| "publishing (Run GitPushTags) = True"
| "publishing (Run (GitTag t)) = True"
| "publishing (Run (GitCommit r a b m)) = (m \<noteq> [])"
| "publishing ev = False"

text \<open>The trace of \<open>w1\<close> extends the trace of \<open>w\<close> by events that publish nothing.\<close>

definition quiet_since :: "world \<Rightarrow> world \<Rightarrow> bool" where
  "quiet_since w w1 \<longleftrightarrow> (\<exists>evs. trace w1 = trace w @ evs \<and> \<not> list_ex publishing evs)"

subsection \<open>What a run writes\<close>

text \<open>
  The documents that pass the dedup guard and the exclusion filter, given the ids seen so
  far: the ones the loop generates when no lookup of \<^verbatim>\<open>preferred\<close> fails.
\<close>

fun eligible ::
  "(string \<rightharpoonup> bool) \<Rightarrow> string set \<Rightarrow> (string \<times> descriptor) list \<Rightarrow> (string \<times> descriptor) list" where
  "eligible preferred seen [] = []"
| "eligible preferred seen (doc # docs) =
     (if doc_id (snd doc) \<in> seen then eligible preferred seen docs
      else if doc_name (snd doc) \<noteq> ''discovery'' \<and> preferred (doc_id (snd doc)) = Some True
           then doc # eligible preferred (insert (doc_id (snd doc)) seen) docs
           else eligible preferred (insert (doc_id (snd doc)) seen) docs)"

text \<open>
  What the replace step copies into the service directory from a generator listing: the
  file \<^verbatim>\<open>s.php\<close> and the entry \<^verbatim>\<open>s\<close>, for the service name \<open>s\<close> of the first entry.
\<close>

definition artifact_writes :: "tree \<Rightarrow> (string \<times> node) list" where
  "artifact_writes out =
     (case out of
        [] \<Rightarrow> []
      | e # es \<Rightarrow>
          (let s = fst (splitext (fst e))
           in case (map_of out (s @ ''.php''), map_of out s) of
                (Some (File c), Some n) \<Rightarrow> [(s @ ''.php'', File c), (s, n)]
              | _ \<Rightarrow> []))"

definition writes_of :: "(string \<Rightarrow> tree option) \<Rightarrow> (string \<times> descriptor) list \<Rightarrow> (string \<times> node) list" where
  "writes_of gen docs =
     concat (map (\<lambda>doc. case gen (fst doc) of None \<Rightarrow> [] | Some out \<Rightarrow> artifact_writes out) docs)"

text \<open>The writes of a run over the catalog of the world, in order.\<close>

definition planned_writes :: "world \<Rightarrow> (string \<times> node) list" where
  "planned_writes w =
     writes_of (generator w)
       (eligible (load_preferred (index_items w)) {}
          (filter (\<lambda>doc. fst doc \<noteq> ''index.json'') (discovery_documents w)))"

text \<open>No path is written with two different contents.\<close>

definition agreeing :: "(string \<times> node) list \<Rightarrow> bool" where
  "agreeing ws = list_all (\<lambda>e. map_of ws (fst e) = Some (snd e)) ws"

text \<open>The working copy holds the tree of the last commit.\<close>

definition clean :: "world \<Rightarrow> bool" where
  "clean w \<longleftrightarrow> map_of (service_dir w) = map_of (head_tree (history w))"

text \<open>
  A catalog in which two documents with different ids generate the same service name
  with different content.
\<close>

definition doc_t :: "string \<times> descriptor" where
  "doc_t = (''t.json'', \<lparr>doc_id = ''t:v1'', doc_name = ''t'', doc_version = ''v1''\<rparr>)"

definition clash_world :: world where
  "clash_world = example_world\<lparr>
     index_items := [(''a:v1'', True), (''t:v1'', True)],
     discovery_documents := [doc_a, doc_t],
     generator := (\<lambda>f. if f = ''a.json''
                        then Some [(''A.php'', File ''<?php one''), (''A'', Directory ''one'')]
                        else if f = ''t.json''
                        then Some [(''A.php'', File ''<?php two''), (''A'', Directory ''two'')]
                        else None),
     remote := [(''Initial commit'', [])]\<rparr>"

subsection \<open>The generator calls of a run\<close>

text \<open>The input files of the \<^verbatim>\<open>generate_library\<close> commands in a list of events, in order.\<close>

definition generated_files :: "event list \<Rightarrow> string list" where
  "generated_files evs =
     concat (map (\<lambda>ev. case ev of Run (GenerateLibrary f) \<Rightarrow> [f] | _ \<Rightarrow> []) evs)"

text \<open>From \<open>w\<close> to \<open>w'\<close> the trace grows by events whose generator calls are \<open>fs\<close>.\<close>

definition generates :: "string list \<Rightarrow> world \<Rightarrow> world \<Rightarrow> bool" where
  "generates fs w w' \<longleftrightarrow> (\<exists>evs. trace w' = trace w @ evs \<and> generated_files evs = fs)"

text \<open>A list of documents with a repeated id, and the state at the end of the loop over it.\<close>

definition run_docs :: "(string \<times> descriptor) list" where
  "run_docs = [doc_a, doc_a_copy, doc_b, doc_discovery, doc_b]"

definition state_end :: run_state where
  "state_end = \<lparr>processed = {''a:v1'', ''b:v1'', ''discovery:v1''}, added = {''a:v1''}, updated = {},
     commit_count = 1, returncode = 0\<rparr>"

section \<open>The release job\<close>

lemma version_re_match_shape:
  assumes "version_re_match s = Some (g1, g2, rest)"
  shows "s = g1 @ ''.'' @ g2 @ rest \<and> (rest = [] \<or> rest = newline)
         \<and> (\<exists>major. g1 = CHR ''v'' # major \<and> major \<noteq> [] \<and> list_all isdigit major)
         \<and> g2 \<noteq> [] \<and> list_all isdigit g2"
proof -
  from assms obtain r where s: "s = CHR ''v'' # r"
    by (cases s) (auto simp: version_re_match_def split: if_splits)
  define major where "major = takeWhile isdigit r"
  define r1 where "r1 = dropWhile isdigit r"
  have r: "r = major @ r1" by (simp add: major_def r1_def)
  from assms s have m: "major \<noteq> []"
    by (auto simp: version_re_match_def Let_def major_def split: if_splits)
  from assms s m obtain r2 where r1: "r1 = CHR ''.'' # r2"
    by (cases r1)
       (auto simp: version_re_match_def Let_def major_def r1_def split: if_splits list.splits)
  define minor where "minor = takeWhile isdigit r2"
  define r3 where "r3 = dropWhile isdigit r2"
  have r2: "r2 = minor @ r3" by (simp add: minor_def r3_def)
  from assms s m r1
  have res: "minor \<noteq> [] \<and> (r3 = [] \<or> r3 = newline) \<and> g1 = CHR ''v'' # major \<and> g2 = minor \<and> rest = r3"
    by (auto simp: version_re_match_def Let_def major_def[symmetric] r1_def[symmetric]
          minor_def[symmetric] r3_def[symmetric] split: if_splits)
  have dm: "list_all isdigit major" "list_all isdigit minor"
    by (simp_all add: major_def minor_def list_all_iff) (meson set_takeWhileD)+
  show ?thesis using s r r1 r2 res m dm by auto
qed

lemma strip_last: "strip s \<noteq> [] \<Longrightarrow> \<not> isspace (last (strip s))"
proof -
  assume a: "strip s \<noteq> []"
  let ?t = "dropWhile isspace (rev (dropWhile isspace s))"
  from a have "?t \<noteq> []" by (simp add: strip_def)
  then have "\<not> isspace (hd ?t)" by (rule hd_dropWhile)
  moreover have "last (strip s) = hd ?t" using \<open>?t \<noteq> []\<close> by (simp add: strip_def last_rev)
  ultimately show ?thesis by simp
qed

text \<open>A stripped tag has no final newline, so a match covers the whole tag.\<close>

lemma version_re_match_strip:
  assumes "version_re_match (strip s) = Some (g1, g2, rest)"
  shows "rest = [] \<and> strip s = g1 @ ''.'' @ g2"
proof -
  from version_re_match_shape [OF assms]
  have sh: "strip s = g1 @ ''.'' @ g2 @ rest" and r: "rest = [] \<or> rest = newline" by auto
  have "rest \<noteq> newline"
  proof
    assume n: "rest = newline"
    with sh have "strip s \<noteq> []" and "last (strip s) = CHR 0x0A" by (simp_all add: newline_def)
    with strip_last [of s] show False by (simp add: isspace_def)
  qed
  with r sh show ?thesis by simp
qed

lemma digit_value_char: "d < 10 \<Longrightarrow> digit_value (digit_char d) = d"
  by (simp add: digit_value_def digit_char_def)

lemma int_of_digits_snoc: "int_of_digits (s @ [c]) = 10 * int_of_digits s + digit_value c"
  by (simp add: int_of_digits_def)

lemma int_of_digits_str: "int_of_digits (str n) = n"
proof (induction n rule: str.induct)
  case (1 n)
  show ?case
  proof (cases "n < 10")
    case True
    then have "str n = [digit_char n]" by (subst str.simps) simp
    with True show ?thesis by (simp add: int_of_digits_def digit_value_char)
  next
    case False
    then have "str n = str (n div 10) @ [digit_char (n mod 10)]" by (subst str.simps) simp
    with 1 False show ?thesis by (simp add: int_of_digits_snoc digit_value_char)
  qed
qed

lemma cron_clients_php_release_run:
  assumes "headers_get req ''X-Appengine-Cron'' \<noteq> None" and "accounts w \<noteq> []"
  shows "cron_clients_php_release req w
           = with_tmp_dir (release (hd (accounts w))) (w\<lparr>trace := trace w @ [DatastoreQuery]\<rparr>)"
  using assms
  by (cases "accounts w")
     (auto simp: cron_clients_php_release_def and_then_def get_github_account_def Let_def)

lemmas release_defs = cron_clients_php_release_run release_def and_then_def return_def
  with_tmp_dir_def call_def check_output_def Let_def

lemma cron_request_header: "headers_get cron_request ''X-Appengine-Cron'' \<noteq> None"
  by code_simp

text \<open>
  C6. When the latest tag matches \<^verbatim>\<open>v<major>.<minor>\<close> and the log after it is not
  empty, the release job runs \<^verbatim>\<open>git tag\<close> with the same major prefix and the minor
  number plus one, and, the tag being new, pushes it and returns the empty body. When the
  log is empty it clones, reads the tag and the log, and creates no tag.
\<close>

theorem release_next_tag:
  assumes hdr: "headers_get req ''X-Appengine-Cron'' \<noteq> None"
    and acc: "accounts w \<noteq> []"
    and ok: "\<forall>c. \<not> broken w c"
    and tag: "latest_tag = strip (describe_output w)"
  shows "(log_output w latest_tag \<noteq> [] \<and> version_re_match latest_tag = Some (major, minor, rest) \<longrightarrow>
           latest_tag = major @ ''.'' @ minor \<and>
           int_of_digits (str (int_of_digits minor + 1)) = int_of_digits minor + 1 \<and>
           Run (GitTag (major @ ''.'' @ str (int_of_digits minor + 1)))
             \<in> set (trace (snd (cron_clients_php_release req w))) \<and>
           (major @ ''.'' @ str (int_of_digits minor + 1) \<notin> set (remote_tags w) \<longrightarrow>
              fst (cron_clients_php_release req w) = Inr [] \<and>
              remote_tags (snd (cron_clients_php_release req w))
                = (major @ ''.'' @ str (int_of_digits minor + 1)) # remote_tags w))
       \<and> (log_output w latest_tag = [] \<longrightarrow>
           fst (cron_clients_php_release req w) = Inr [] \<and>
           remote_tags (snd (cron_clients_php_release req w)) = remote_tags w \<and>
           trace (snd (cron_clients_php_release req w))
             = trace w @ [DatastoreQuery, TemporaryDirectory, Run (GitClone PhpClientServices),
                          Run GitDescribe, Run (GitLog latest_tag)])"
proof (intro conjI impI)
  assume e: "log_output w latest_tag = []"
  from hdr acc ok tag e show "fst (cron_clients_php_release req w) = Inr []"
    by (simp add: release_defs)
  from hdr acc ok tag e show "remote_tags (snd (cron_clients_php_release req w)) = remote_tags w"
    by (simp add: release_defs)
  from hdr acc ok tag e show "trace (snd (cron_clients_php_release req w))
             = trace w @ [DatastoreQuery, TemporaryDirectory, Run (GitClone PhpClientServices),
                          Run GitDescribe, Run (GitLog latest_tag)]"
    by (simp add: release_defs)
next
  assume a: "log_output w latest_tag \<noteq> [] \<and> version_re_match latest_tag = Some (major, minor, rest)"
  then have m: "version_re_match (strip (describe_output w)) = Some (major, minor, rest)"
    and l: "log_output w (strip (describe_output w)) \<noteq> []" using tag by simp_all
  from version_re_match_strip [OF m]
  have rest: "rest = []" and t: "strip (describe_output w) = major @ ''.'' @ minor"
    by simp_all
  from t tag show "latest_tag = major @ ''.'' @ minor" by simp
  show "int_of_digits (str (int_of_digits minor + 1)) = int_of_digits minor + 1"
    by (rule int_of_digits_str)
  have sub: "version_re_sub n (strip (describe_output w)) = major @ ''.'' @ n" for n
    by (simp add: version_re_sub_def m rest)
  from hdr acc ok m l sub show "Run (GitTag (major @ ''.'' @ str (int_of_digits minor + 1)))
             \<in> set (trace (snd (cron_clients_php_release req w)))"
    by (simp add: release_defs)
  {
    assume n: "major @ ''.'' @ str (int_of_digits minor + 1) \<notin> set (remote_tags w)"
    from hdr acc ok m l sub n show "fst (cron_clients_php_release req w) = Inr []"
      by (simp add: release_defs)
    from hdr acc ok m l sub n show "remote_tags (snd (cron_clients_php_release req w))
                = (major @ ''.'' @ str (int_of_digits minor + 1)) # remote_tags w"
      by (simp add: release_defs)
  }
qed

theorem release_next_tag_witness:
  "headers_get cron_request ''X-Appengine-Cron'' \<noteq> None \<and> accounts example_world \<noteq> []
   \<and> (\<forall>c. \<not> broken example_world c) \<and> strip (describe_output example_world) = ''v0.12''
   \<and> log_output example_world ''v0.12'' \<noteq> []
   \<and> version_re_match ''v0.12'' = Some (''v0'', ''12'', [])
   \<and> ''v0.13'' \<notin> set (remote_tags example_world)
   \<and> Run (GitTag ''v0.13'') \<in> set (trace (snd (cron_clients_php_release cron_request example_world)))
   \<and> fst (cron_clients_php_release cron_request example_world) = Inr []
   \<and> remote_tags (snd (cron_clients_php_release cron_request example_world)) = [''v0.13'', ''v0.12'']
   \<and> log_output quiet_world ''v0.12'' = []
   \<and> fst (cron_clients_php_release cron_request quiet_world) = Inr []
   \<and> remote_tags (snd (cron_clients_php_release cron_request quiet_world)) = [''v0.12'']
   \<and> strip (describe_output padded_world) = ''v0.12''
   \<and> Run (GitTag ''v0.13'') \<in> set (trace (snd (cron_clients_php_release cron_request padded_world)))
   \<and> remote_tags (snd (cron_clients_php_release cron_request padded_world)) = [''v0.13'', ''v0.12'']"
proof -
  have a: "accounts example_world \<noteq> []" "accounts quiet_world \<noteq> []"
    "accounts padded_world \<noteq> []"
    by (simp_all add: example_world_def quiet_world_def padded_world_def)
  have b: "\<forall>c. \<not> broken example_world c" "\<forall>c. \<not> broken quiet_world c"
    "\<forall>c. \<not> broken padded_world c"
    by (simp_all add: example_world_def quiet_world_def padded_world_def)
  have t: "strip (describe_output example_world) = ''v0.12''"
          "strip (describe_output quiet_world) = ''v0.12''"
          "strip (describe_output padded_world) = ''v0.12''"
    by code_simp+
  have l: "log_output example_world ''v0.12'' \<noteq> []" "log_output quiet_world ''v0.12'' = []"
    "log_output padded_world ''v0.12'' \<noteq> []"
    by (simp_all add: example_world_def quiet_world_def padded_world_def)
  have m: "version_re_match ''v0.12'' = Some (''v0'', ''12'', [])" by code_simp
  have n: "str (Suc (int_of_digits ''12'')) = ''13''" by code_simp
  have r: "remote_tags example_world = [''v0.12'']" "remote_tags quiet_world = [''v0.12'']"
    "remote_tags padded_world = [''v0.12'']"
    by (simp_all add: example_world_def quiet_world_def padded_world_def)
  show ?thesis
    using release_next_tag [OF cron_request_header a(1) b(1) t(1) [symmetric], of "''v0''" "''12''" "[]"]
          release_next_tag [OF cron_request_header a(2) b(2) t(2) [symmetric], of "''v0''" "''12''" "[]"]
          release_next_tag [OF cron_request_header a(3) b(3) t(3) [symmetric], of "''v0''" "''12''" "[]"]
          cron_request_header a b t l m
    by (simp add: n r)
qed



section \<open>The trigger header\<close>




section \<open>The summary message\<close>

lemma add_ids_lines: "add_ids msg ids = msg @ id_lines ids"
  by (induction ids arbitrary: msg) (simp_all add: id_lines_def)

text \<open>
  C5. The aggregate commit message is the title with the run date, then the section
  \<^verbatim>\<open>Add:\<close> with the added ids in sorted order, then the section \<^verbatim>\<open>Update:\<close> with
  the updated ids in sorted order; the section of an empty set is the empty string.
\<close>

theorem commit_message_sections:
  assumes "finite added_ids" and "finite updated_ids"
  shows "commit_message d added_ids updated_ids =
           ''Autogenerated update ('' @ d @ '')'' @ newline
           @ id_section ''Add:'' (sorted_list_of_set added_ids)
           @ id_section ''Update:'' (sorted_list_of_set updated_ids)
         \<and> sorted (sorted_list_of_set added_ids) \<and> distinct (sorted_list_of_set added_ids)
         \<and> set (sorted_list_of_set added_ids) = added_ids
         \<and> sorted (sorted_list_of_set updated_ids) \<and> distinct (sorted_list_of_set updated_ids)
         \<and> set (sorted_list_of_set updated_ids) = updated_ids
         \<and> (id_section ''Add:'' (sorted_list_of_set added_ids) = [] \<longleftrightarrow> added_ids = {})
         \<and> (id_section ''Update:'' (sorted_list_of_set updated_ids) = [] \<longleftrightarrow> updated_ids = {})"
  using assms
  by (simp add: commit_message_def Let_def add_ids_lines id_section_def newline_def)

theorem commit_message_sections_witness:
  "finite {''b:v1'', ''a:v1''} \<and> finite ({} :: string set) \<and>
   commit_message ''2017-06-01'' {''b:v1'', ''a:v1''} {} =
     ''Autogenerated update (2017-06-01)'' @ newline @ newline @ ''Add:'' @ newline
       @ ''- a:v1'' @ newline @ ''- b:v1'' @ newline"
proof -
  have s: "sorted_list_of_set {''b:v1'', ''a:v1''} = [''a:v1'', ''b:v1'']" by code_simp
  have e: "sorted_list_of_set ({} :: string set) = []" by simp
  show ?thesis
    using commit_message_sections [of "{''b:v1'', ''a:v1''}" "{}" "''2017-06-01''"]
    unfolding s e by (simp add: id_section_def id_lines_def)
qed

section \<open>One iteration of the update loop\<close>

lemma process_document_seen:
  "doc_id (snd doc) \<in> processed st \<Longrightarrow> process_document account preferred doc st w = (Inr st, w)"
  by (simp add: process_document_def Let_def)

lemma process_document_excluded:
  assumes "doc_id (snd doc) \<notin> processed st"
    and "doc_name (snd doc) = ''discovery'' \<or> preferred (doc_id (snd doc)) = Some False"
  shows "process_document account preferred doc st w
           = (Inr (st\<lparr>processed := insert (doc_id (snd doc)) (processed st)\<rparr>), w)"
  using assms by (auto simp: process_document_def Let_def)

lemma process_document_KeyError:
  assumes "doc_id (snd doc) \<notin> processed st" and "doc_name (snd doc) \<noteq> ''discovery''"
    and "preferred (doc_id (snd doc)) = None"
  shows "process_document account preferred doc st w = (Inl (KeyError (doc_id (snd doc))), w)"
  using assms by (simp add: process_document_def Let_def)

lemma process_document_generate:
  assumes "doc_id (snd doc) \<notin> processed st" and "doc_name (snd doc) \<noteq> ''discovery''"
    and "preferred (doc_id (snd doc)) = Some True"
  shows "process_document account preferred doc st w =
     (case generate_service (fst doc) w of
        (Inl e, w1) \<Rightarrow> (Inl e, w1)
      | (Inr service_exists, w1) \<Rightarrow>
          (case call (GitAdd ''src'') True w1 of
             (Inl e, w2) \<Rightarrow> (Inl e, w2)
           | (Inr x, w2) \<Rightarrow>
               (case call (GitCommit PhpClientServices (acc_name account) (acc_email account) []) False w2 of
                  (Inl e, w3) \<Rightarrow> (Inl e, w3)
                | (Inr rc, w3) \<Rightarrow>
                    (Inr (commit_outcome (doc_id (snd doc))
                            (st\<lparr>processed := insert (doc_id (snd doc)) (processed st)\<rparr>)
                            service_exists rc), w3))))"
  using assms
  by (simp add: process_document_def Let_def and_then_def return_def commit_outcome_def
           split: prod.splits sum.splits)

lemma process_document_generate_Inr:
  assumes "process_document account preferred doc st w = (Inr st1, w1)"
    and "doc_id (snd doc) \<notin> processed st" and "doc_name (snd doc) \<noteq> ''discovery''"
    and "preferred (doc_id (snd doc)) = Some True"
  shows "\<exists>service_exists wa x wb rc.
           generate_service (fst doc) w = (Inr service_exists, wa) \<and>
           call (GitAdd ''src'') True wa = (Inr x, wb) \<and>
           call (GitCommit PhpClientServices (acc_name account) (acc_email account) []) False wb
             = (Inr rc, w1) \<and>
           st1 = commit_outcome (doc_id (snd doc))
                   (st\<lparr>processed := insert (doc_id (snd doc)) (processed st)\<rparr>) service_exists rc"
  using assms(1)
  unfolding process_document_generate [of doc st preferred, OF assms(2,3,4)]
  by (auto split: prod.splits sum.splits)

lemma process_document_state:
  assumes "process_document account preferred doc st w = (Inr st1, w1)"
    and "doc_id (snd doc) \<notin> processed st"
  shows "processed st1 = insert (doc_id (snd doc)) (processed st) \<and>
         ((added st1 = added st \<and> updated st1 = updated st \<and> commit_count st1 = commit_count st
             \<and> returncode st1 = returncode st)
          \<or> (added st1 = insert (doc_id (snd doc)) (added st) \<and> updated st1 = updated st
             \<and> commit_count st1 = commit_count st + 1 \<and> returncode st1 = 0)
          \<or> (added st1 = added st \<and> updated st1 = insert (doc_id (snd doc)) (updated st)
             \<and> commit_count st1 = commit_count st + 1 \<and> returncode st1 = 0))"
proof (cases "doc_name (snd doc) = ''discovery'' \<or> preferred (doc_id (snd doc)) = Some False")
  case True
  from process_document_excluded [of doc st preferred account w] assms True
  show ?thesis by auto
next
  case False
  then have n: "doc_name (snd doc) \<noteq> ''discovery''" by simp
  have "preferred (doc_id (snd doc)) \<noteq> None"
    using process_document_KeyError [of doc st preferred account w] assms n by auto
  with False have p: "preferred (doc_id (snd doc)) = Some True" by auto
  from process_document_generate_Inr [OF assms n p] obtain service_exists rc where
    "st1 = commit_outcome (doc_id (snd doc))
             (st\<lparr>processed := insert (doc_id (snd doc)) (processed st)\<rparr>) service_exists rc"
    by blast
  then show ?thesis
    by (cases "rc = 0"; cases service_exists) (simp_all add: commit_outcome_def)
qed

lemma call_unbroken:
  "\<not> broken w c \<Longrightarrow> call c check w =
     (case effect c (w\<lparr>trace := trace w @ [Run c]\<rparr>) of
        (rc, w2) \<Rightarrow> if check \<and> rc \<noteq> 0 then (Inl (CalledProcessError rc c), w2) else (Inr rc, w2))"
  by (simp add: call_def)

lemma call_broken:
  "broken w c \<Longrightarrow> call c True w = (Inl (CalledProcessError 1 c), w\<lparr>trace := trace w @ [Run c]\<rparr>)"
  by (simp add: call_def)

lemma generate_service_ok:
  assumes "\<not> broken w (GenerateLibrary f)" and "\<not> broken w (RmRf s)" and "\<not> broken w (Cp s)"
    and "\<not> broken w (CpR s)"
    and "generator w f = Some (e # es)" and "s = fst (splitext (fst e))"
    and "map_of (e # es) (s @ ''.php'') = Some (File c)" and "map_of (e # es) s = Some n"
  shows "generate_service f w =
           (Inr (path_exists (s @ ''.php'') (service_dir w)),
            w\<lparr>trace := trace w @ [TemporaryDirectory, Run (GenerateLibrary f), Run (RmRf s),
                                    Run (Cp s), Run (CpR s)],
              service_dir := replaced s c n (service_dir w), tmp_dir2 := []\<rparr>)"
  using assms
  by (simp add: generate_service_def with_tmp_dir2_def and_then_def return_def call_unbroken
        replaced_def Let_def del: map_of.simps)

lemma and_then_Inr:
  "and_then m f w = (Inr y, w') \<longleftrightarrow> (\<exists>x w1. m w = (Inr x, w1) \<and> f x w1 = (Inr y, w'))"
  by (auto simp: and_then_def split: prod.splits sum.splits)

lemma call_True_Inr:
  "call c True w = (Inr x, w1) \<longleftrightarrow>
     \<not> broken w c \<and> x = 0 \<and> effect c (w\<lparr>trace := trace w @ [Run c]\<rparr>) = (0, w1)"
  by (auto simp: call_def Let_def split: prod.splits if_splits)

lemma with_tmp_dir2_Inr:
  "with_tmp_dir2 body w = (Inr x, w') \<longleftrightarrow>
     (\<exists>w1. body (w\<lparr>trace := trace w @ [TemporaryDirectory], tmp_dir2 := []\<rparr>) = (Inr x, w1)
           \<and> w' = w1\<lparr>tmp_dir2 := []\<rparr>)"
  by (auto simp: with_tmp_dir2_def split: prod.splits)

lemma effect_GenerateLibrary_0:
  "effect (GenerateLibrary f) w = (0, w1) \<longleftrightarrow> (\<exists>out. generator w f = Some out \<and> w1 = w\<lparr>tmp_dir2 := out\<rparr>)"
  by (auto split: option.splits)

lemma effect_Cp_0:
  "effect (Cp s) w = (0, w1) \<longleftrightarrow>
     (\<exists>c. map_of (tmp_dir2 w) (s @ ''.php'') = Some (File c)
          \<and> w1 = w\<lparr>service_dir := write_path (s @ ''.php'') (File c) (service_dir w)\<rparr>)"
  by (auto split: option.splits node.splits)

lemma effect_CpR_0:
  "effect (CpR s) w = (0, w1) \<longleftrightarrow>
     (\<exists>n. map_of (tmp_dir2 w) s = Some n \<and> w1 = w\<lparr>service_dir := write_path s n (service_dir w)\<rparr>)"
  by (auto split: option.splits)

lemma effect_RmRf_0:
  "effect (RmRf s) w = (0, w1) \<longleftrightarrow>
     w1 = w\<lparr>service_dir := remove_path (s @ ''.php'') (remove_path s (service_dir w))\<rparr>"
  by auto

lemma generate_service_Inr:
  assumes "generate_service f w = (Inr service_exists, wa)"
  shows "\<exists>e es s c n. generator w f = Some (e # es) \<and> s = fst (splitext (fst e))
           \<and> map_of (e # es) (s @ ''.php'') = Some (File c) \<and> map_of (e # es) s = Some n
           \<and> \<not> broken w (GenerateLibrary f) \<and> \<not> broken w (RmRf s) \<and> \<not> broken w (Cp s)
           \<and> \<not> broken w (CpR s)
           \<and> service_exists = path_exists (s @ ''.php'') (service_dir w)
           \<and> wa = w\<lparr>trace := trace w @ [TemporaryDirectory, Run (GenerateLibrary f), Run (RmRf s),
                                    Run (Cp s), Run (CpR s)],
              service_dir := replaced s c n (service_dir w), tmp_dir2 := []\<rparr>"
proof -
  define k where "k = (\<lambda>(x::int) w.
         case map fst (tmp_dir2 w) of
           [] \<Rightarrow> (Inl IndexError, w)
         | d # _ \<Rightarrow>
            (let service_name = fst (splitext d);
                 service_exists = path_exists (service_name @ ''.php'') (service_dir w)
             in and_then (call (RmRf service_name) True) (\<lambda>_.
                and_then (call (Cp service_name) True) (\<lambda>_.
                and_then (call (CpR service_name) True) (\<lambda>_.
                return service_exists))) w))"
  let ?w0 = "w\<lparr>trace := trace w @ [TemporaryDirectory], tmp_dir2 := []\<rparr>"
  have gs: "generate_service f = with_tmp_dir2 (and_then (call (GenerateLibrary f) True) k)"
    by (simp add: generate_service_def k_def)
  from assms obtain x wx w1 where c: "call (GenerateLibrary f) True ?w0 = (Inr x, wx)"
    and kk: "k x wx = (Inr service_exists, w1)" and wa: "wa = w1\<lparr>tmp_dir2 := []\<rparr>"
    unfolding gs with_tmp_dir2_Inr and_then_Inr by blast
  from c obtain out where g: "generator w f = Some out" and b1: "\<not> broken w (GenerateLibrary f)"
    and wx: "wx = w\<lparr>trace := trace w @ [TemporaryDirectory, Run (GenerateLibrary f)], tmp_dir2 := out\<rparr>"
    by (auto simp: call_True_Inr effect_GenerateLibrary_0 simp del: effect.simps)
  from kk wx obtain e es where out: "out = e # es" by (cases out) (auto simp: k_def)
  define s where "s = fst (splitext (fst e))"
  from kk have
    "\<not> broken w (RmRf s) \<and> \<not> broken w (Cp s) \<and> \<not> broken w (CpR s) \<and>
     (\<exists>c n. map_of (e # es) (s @ ''.php'') = Some (File c) \<and> map_of (e # es) s = Some n \<and>
        service_exists = path_exists (s @ ''.php'') (service_dir w) \<and>
        w1 = w\<lparr>trace := trace w @ [TemporaryDirectory, Run (GenerateLibrary f), Run (RmRf s),
                                    Run (Cp s), Run (CpR s)],
              service_dir := replaced s c n (service_dir w), tmp_dir2 := e # es\<rparr>)"
    unfolding k_def wx out
    by (auto simp: s_def [symmetric] Let_def and_then_Inr call_True_Inr effect_RmRf_0 effect_Cp_0
          effect_CpR_0 return_def replaced_def simp del: map_of.simps effect.simps)
  with g b1 out s_def wa show ?thesis by auto
qed

lemma consistent_initial: "consistent_state initial_state"
  by (simp add: consistent_state_def initial_state_def)

lemma process_document_consistent:
  assumes "process_document account preferred doc st w = (Inr st1, w1)" and "consistent_state st"
  shows "consistent_state st1 \<and> processed st \<subseteq> processed st1 \<and> added st \<subseteq> added st1
         \<and> updated st \<subseteq> updated st1 \<and> commit_count st \<le> commit_count st1"
proof (cases "doc_id (snd doc) \<in> processed st")
  case True
  with assms show ?thesis by (simp add: process_document_seen)
next
  case False
  from process_document_state [OF assms(1) False] assms(2) False
  show ?thesis unfolding consistent_state_def by (elim conjE disjE) auto
qed

lemma process_documents_consistent:
  "process_documents account preferred docs st w = (Inr st1, w1) \<Longrightarrow> consistent_state st \<Longrightarrow>
     consistent_state st1 \<and> processed st \<subseteq> processed st1 \<and> added st \<subseteq> added st1
       \<and> updated st \<subseteq> updated st1 \<and> commit_count st \<le> commit_count st1"
proof (induction docs arbitrary: st w)
  case Nil
  then show ?case by simp
next
  case (Cons doc docs)
  from Cons.prems(1) obtain sa wa where
    a: "process_document account preferred doc st w = (Inr sa, wa)"
    and b: "process_documents account preferred docs sa wa = (Inr st1, w1)"
    by (auto split: prod.splits sum.splits)
  from process_document_consistent [OF a Cons.prems(2)] Cons.IH [OF b] show ?case by auto
qed

lemma process_documents_append:
  "process_documents account preferred (xs @ ys) st w =
     (case process_documents account preferred xs st w of
        (Inl e, w1) \<Rightarrow> (Inl e, w1)
      | (Inr st1, w1) \<Rightarrow> process_documents account preferred ys st1 w1)"
  by (induction xs arbitrary: st w) (auto split: prod.splits sum.splits)

lemma first_by_id_fresh: "d \<in> set (first_by_id seen docs) \<Longrightarrow> doc_id (snd d) \<notin> seen \<and> d \<in> set docs"
  by (induction docs arbitrary: seen) (auto split: if_splits)

lemma first_by_id_distinct: "distinct (map (\<lambda>d. doc_id (snd d)) (first_by_id seen docs))"
  by (induction docs arbitrary: seen) (auto dest: first_by_id_fresh)

lemma first_by_id_ids:
  "(\<lambda>d. doc_id (snd d)) ` set (first_by_id seen docs) = (\<lambda>d. doc_id (snd d)) ` set docs - seen"
  by (induction docs arbitrary: seen) auto

lemma process_documents_first_by_id:
  "process_documents account preferred docs st w
     = process_documents account preferred (first_by_id (processed st) docs) st w"
proof (induction docs arbitrary: st w)
  case Nil
  show ?case by simp
next
  case (Cons doc docs)
  show ?case
  proof (cases "doc_id (snd doc) \<in> processed st")
    case True
    then show ?thesis by (simp add: process_document_seen Cons.IH)
  next
    case False
    have "process_documents account preferred docs sa wa
            = process_documents account preferred
                (first_by_id (insert (doc_id (snd doc)) (processed st)) docs) sa wa"
      if "process_document account preferred doc st w = (Inr sa, wa)" for sa wa
      using process_document_state [OF that False] Cons.IH [of sa wa] by simp
    with False show ?thesis by (auto split: prod.splits sum.splits)
  qed
qed

section \<open>Exclusion and the preferred lookup\<close>

lemma load_preferred_None:
  "load_preferred items k = None \<longleftrightarrow>
     k \<notin> fst ` set items \<and> k \<noteq> ''admin:directory_v1'' \<and> k \<noteq> ''admin:datatransfer_v1''"
proof -
  have "foldl (\<lambda>preferred api. preferred(fst api \<mapsto> snd api)) m items k = None
          \<longleftrightarrow> m k = None \<and> k \<notin> fst ` set items" for m :: "string \<rightharpoonup> bool"
    by (induction items arbitrary: m) auto
  then show ?thesis by (simp add: load_preferred_def)
qed

text \<open>
  C3. For the document named \<^verbatim>\<open>discovery\<close> and for a document whose id is not
  marked preferred in the dictionary built from the index and the two overrides, the
  iteration leaves the world as it is: no generator call, no write to the service
  directory.
\<close>

theorem excluded_never_generated:
  "doc_name (snd doc) = ''discovery'' \<or> load_preferred items (doc_id (snd doc)) \<noteq> Some True \<Longrightarrow>
     snd (process_document account (load_preferred items) doc st w) = w"
proof (cases "doc_id (snd doc) \<in> processed st")
  case True
  then show ?thesis by (simp add: process_document_seen)
next
  case False
  assume a: "doc_name (snd doc) = ''discovery'' \<or> load_preferred items (doc_id (snd doc)) \<noteq> Some True"
  show ?thesis
  proof (cases "doc_name (snd doc) = ''discovery'' \<or> load_preferred items (doc_id (snd doc)) = Some False")
    case True
    with False show ?thesis by (simp add: process_document_excluded)
  next
    case False
    with a have "doc_name (snd doc) \<noteq> ''discovery''"
      and "load_preferred items (doc_id (snd doc)) = None"
      by (cases "load_preferred items (doc_id (snd doc))"; auto)+
    with \<open>doc_id (snd doc) \<notin> processed st\<close> show ?thesis
      by (simp add: process_document_KeyError)
  qed
qed

theorem excluded_never_generated_witness:
  "load_preferred (index_items catalog_world) (doc_id (snd doc_b)) \<noteq> Some True
   \<and> snd (process_document example_account (load_preferred (index_items catalog_world)) doc_b
            initial_state (cloned catalog_world)) = cloned catalog_world
   \<and> doc_name (snd doc_discovery) = ''discovery''
   \<and> load_preferred (index_items catalog_world) ''discovery:v1'' = Some True
   \<and> snd (process_document example_account (load_preferred (index_items catalog_world))
            doc_discovery
            initial_state (cloned catalog_world)) = cloned catalog_world"
proof -
  have 1: "load_preferred (index_items catalog_world) (doc_id (snd doc_b)) \<noteq> Some True"
    by (simp add: load_preferred_def catalog_world_def doc_b_def)
  have 2: "load_preferred (index_items catalog_world) ''discovery:v1'' = Some True"
    by (simp add: load_preferred_def catalog_world_def)
  have 3: "doc_name (snd doc_discovery) = ''discovery''"
    by (simp add: doc_discovery_def)
  from 1 have 4: "snd (process_document example_account (load_preferred (index_items catalog_world))
            doc_b initial_state (cloned catalog_world)) = cloned catalog_world"
    by (intro excluded_never_generated disjI2)
  from 3 have 5: "snd (process_document example_account (load_preferred (index_items catalog_world))
            doc_discovery initial_state (cloned catalog_world)) = cloned catalog_world"
    by (intro excluded_never_generated disjI1)
  from 1 2 3 4 5 show ?thesis by (intro conjI)
qed

text \<open>
  C10. For a document that passes the dedup guard, is not named \<^verbatim>\<open>discovery\<close>, and
  whose id is neither in the index nor one of the two override ids, the iteration raises
  \<^verbatim>\<open>KeyError\<close>, and so does the loop when it reaches that document.
\<close>

theorem missing_preferred_KeyError:
  assumes "doc_id (snd doc) \<notin> processed st" and "doc_name (snd doc) \<noteq> ''discovery''"
    and "doc_id (snd doc) \<notin> fst ` set items"
    and "doc_id (snd doc) \<noteq> ''admin:directory_v1''" and "doc_id (snd doc) \<noteq> ''admin:datatransfer_v1''"
  shows "process_document account (load_preferred items) doc st w
           = (Inl (KeyError (doc_id (snd doc))), w)
         \<and> process_documents account (load_preferred items) (doc # docs) st w
           = (Inl (KeyError (doc_id (snd doc))), w)
         \<and> (\<forall>before st0 w0.
              process_documents account (load_preferred items) before st0 w0 = (Inr st, w) \<longrightarrow>
              process_documents account (load_preferred items) (before @ doc # docs) st0 w0
                = (Inl (KeyError (doc_id (snd doc))), w))"
proof -
  from assms(3-5) have "load_preferred items (doc_id (snd doc)) = None"
    by (simp add: load_preferred_None)
  with assms(1,2) have 1: "process_document account (load_preferred items) doc st w
           = (Inl (KeyError (doc_id (snd doc))), w)"
    by (simp add: process_document_KeyError)
  then show ?thesis by (simp add: process_documents_append)
qed

theorem missing_preferred_KeyError_witness:
  "doc_id (snd doc_c) \<notin> processed initial_state \<and> doc_name (snd doc_c) \<noteq> ''discovery''
   \<and> doc_id (snd doc_c) \<notin> fst ` set (index_items orphan_world)
   \<and> doc_id (snd doc_c) \<noteq> ''admin:directory_v1'' \<and> doc_id (snd doc_c) \<noteq> ''admin:datatransfer_v1''
   \<and> process_documents example_account (load_preferred (index_items orphan_world)) [doc_c, doc_b]
        initial_state (cloned orphan_world) = (Inl (KeyError ''c:v1''), cloned orphan_world)
   \<and> fst (cron_clients_php_update cron_request orphan_world) = Inl (KeyError ''c:v1'')"
proof -
  have 1: "doc_id (snd doc_c) \<notin> processed initial_state" by (simp add: initial_state_def)
  have 2: "doc_name (snd doc_c) \<noteq> ''discovery''" by (simp add: doc_c_def)
  have 3: "doc_id (snd doc_c) \<notin> fst ` set (index_items orphan_world)"
    by (simp add: doc_c_def orphan_world_def catalog_world_def)
  have 4: "doc_id (snd doc_c) \<noteq> ''admin:directory_v1''" "doc_id (snd doc_c) \<noteq> ''admin:datatransfer_v1''"
    by (simp_all add: doc_c_def)
  have 5: "fst (cron_clients_php_update cron_request orphan_world) = Inl (KeyError ''c:v1'')"
    by code_simp
  have 6: "doc_id (snd doc_c) = ''c:v1''" by (simp add: doc_c_def)
  show ?thesis
    using missing_preferred_KeyError [OF 1 2 3 4, of example_account "cloned orphan_world" "[doc_b]"]
      1 2 3 4 5
    by (simp add: 6)
qed

section \<open>The loop as a whole\<close>

lemma call_GitAdd_Inr:
  "call (GitAdd d) True w = (Inr x, w1) \<longleftrightarrow>
     \<not> broken w (GitAdd d) \<and> x = 0 \<and> w1 = w\<lparr>trace := trace w @ [Run (GitAdd d)]\<rparr>"
  by (auto simp: call_True_Inr)

lemma call_commit:
  "call (GitCommit PhpClientServices a b m) False w =
     (if \<not> broken w (GitCommit PhpClientServices a b m)
         \<and> \<not> same_tree (service_dir w) (head_tree (history w))
      then (Inr 0, w\<lparr>trace := trace w @ [Run (GitCommit PhpClientServices a b m)],
                     history := (m, service_dir w) # history w\<rparr>)
      else (Inr 1, w\<lparr>trace := trace w @ [Run (GitCommit PhpClientServices a b m)]\<rparr>))"
  by (simp add: call_def Let_def)

lemma process_document_generated:
  assumes "process_document account preferred doc st w = (Inr st1, w1)"
    and "doc_id (snd doc) \<notin> processed st" and "doc_name (snd doc) \<noteq> ''discovery''"
    and "preferred (doc_id (snd doc)) = Some True"
  shows "\<exists>e es s c n rc.
           generator w (fst doc) = Some (e # es) \<and> s = fst (splitext (fst e))
           \<and> map_of (e # es) (s @ ''.php'') = Some (File c) \<and> map_of (e # es) s = Some n
           \<and> rc = (if \<not> broken w (GitCommit PhpClientServices (acc_name account) (acc_email account) [])
                      \<and> \<not> same_tree (replaced s c n (service_dir w)) (head_tree (history w))
                   then 0 else 1)
           \<and> st1 = commit_outcome (doc_id (snd doc))
                     (st\<lparr>processed := insert (doc_id (snd doc)) (processed st)\<rparr>)
                     (path_exists (s @ ''.php'') (service_dir w)) rc
           \<and> w1 = w\<lparr>trace := trace w @ [TemporaryDirectory, Run (GenerateLibrary (fst doc)),
                        Run (RmRf s), Run (Cp s), Run (CpR s), Run (GitAdd ''src''),
                        Run (GitCommit PhpClientServices (acc_name account) (acc_email account) [])],
                     service_dir := replaced s c n (service_dir w), tmp_dir2 := [],
                     history := (if rc = 0 then ([], replaced s c n (service_dir w)) # history w
                                 else history w)\<rparr>"
proof -
  from process_document_generate_Inr [OF assms] obtain service_exists wa x wb rc where
    g: "generate_service (fst doc) w = (Inr service_exists, wa)"
    and a: "call (GitAdd ''src'') True wa = (Inr x, wb)"
    and c: "call (GitCommit PhpClientServices (acc_name account) (acc_email account) []) False wb
             = (Inr rc, w1)"
    and st1: "st1 = commit_outcome (doc_id (snd doc))
                   (st\<lparr>processed := insert (doc_id (snd doc)) (processed st)\<rparr>) service_exists rc"
    by blast
  from generate_service_Inr [OF g] obtain e es s c n where
    gen: "generator w (fst doc) = Some (e # es)" "s = fst (splitext (fst e))"
      "map_of (e # es) (s @ ''.php'') = Some (File c)" "map_of (e # es) s = Some n"
    and ex: "service_exists = path_exists (s @ ''.php'') (service_dir w)"
    and wa: "wa = w\<lparr>trace := trace w @ [TemporaryDirectory, Run (GenerateLibrary (fst doc)),
                        Run (RmRf s), Run (Cp s), Run (CpR s)],
                  service_dir := replaced s c n (service_dir w), tmp_dir2 := []\<rparr>"
    by blast
  from a have wb: "wb = wa\<lparr>trace := trace wa @ [Run (GitAdd ''src'')]\<rparr>"
    by (simp add: call_GitAdd_Inr)
  from c have "rc = (if \<not> broken w (GitCommit PhpClientServices (acc_name account) (acc_email account) [])
                      \<and> \<not> same_tree (replaced s c n (service_dir w)) (head_tree (history w))
                   then 0 else 1)
     \<and> w1 = w\<lparr>trace := trace w @ [TemporaryDirectory, Run (GenerateLibrary (fst doc)),
                        Run (RmRf s), Run (Cp s), Run (CpR s), Run (GitAdd ''src''),
                        Run (GitCommit PhpClientServices (acc_name account) (acc_email account) [])],
                     service_dir := replaced s c n (service_dir w), tmp_dir2 := [],
                     history := (if rc = 0 then ([], replaced s c n (service_dir w)) # history w
                                 else history w)\<rparr>"
    unfolding call_commit wb wa by (auto split: if_splits)
  with gen ex st1 show ?thesis by blast
qed

lemma process_document_untouched:
  assumes "process_document account preferred doc st w = (Inr st1, w1)"
    and "\<not> (doc_id (snd doc) \<notin> processed st \<and> doc_name (snd doc) \<noteq> ''discovery''
            \<and> preferred (doc_id (snd doc)) = Some True)"
  shows "w1 = w \<and> commit_count st1 = commit_count st \<and> added st1 = added st
         \<and> updated st1 = updated st \<and> returncode st1 = returncode st"
proof (cases "doc_id (snd doc) \<in> processed st")
  case True
  with assms(1) show ?thesis by (simp add: process_document_seen)
next
  case False
  show ?thesis
  proof (cases "doc_name (snd doc) = ''discovery'' \<or> preferred (doc_id (snd doc)) = Some False")
    case True
    with False assms(1) show ?thesis by (auto simp: process_document_excluded)
  next
    case c: False
    with assms(2) False have "preferred (doc_id (snd doc)) = None"
      by (cases "preferred (doc_id (snd doc))") auto
    with c False assms(1) show ?thesis by (simp add: process_document_KeyError)
  qed
qed

lemma process_document_same_inputs:
  assumes "process_document account preferred doc st w = (Inr st1, w1)"
  shows "same_inputs w w1"
proof (cases "doc_id (snd doc) \<notin> processed st \<and> doc_name (snd doc) \<noteq> ''discovery''
            \<and> preferred (doc_id (snd doc)) = Some True")
  case True
  with process_document_generated [OF assms] show ?thesis
    by (auto simp: same_inputs_def)
next
  case False
  with process_document_untouched [OF assms] show ?thesis by (simp add: same_inputs_def)
qed

lemma same_inputs_trans: "same_inputs a b \<Longrightarrow> same_inputs b c \<Longrightarrow> same_inputs a c"
  by (simp add: same_inputs_def)

lemma same_inputs_refl: "same_inputs a a"
  by (simp add: same_inputs_def)

lemma process_documents_same_inputs:
  "process_documents account preferred docs st w = (Inr st1, w1) \<Longrightarrow> same_inputs w w1"
proof (induction docs arbitrary: st w)
  case Nil
  then show ?case by (simp add: same_inputs_refl)
next
  case (Cons doc docs)
  from Cons.prems obtain sa wa where
    a: "process_document account preferred doc st w = (Inr sa, wa)"
    and b: "process_documents account preferred docs sa wa = (Inr st1, w1)"
    by (auto split: prod.splits sum.splits)
  from process_document_same_inputs [OF a] Cons.IH [OF b] show ?case
    by (rule same_inputs_trans)
qed

lemma regenerate_Inr:
  assumes "regenerate account w = (Inr st, w')"
  shows "process_documents account (load_preferred (index_items w))
           (filter (\<lambda>doc. fst doc \<noteq> ''index.json'') (discovery_documents w)) initial_state
           ((cloned w)\<lparr>trace := trace w @ [Run (GitClone DiscoveryArtifactManager),
               Run (GitClone PhpClientServices), Run Virtualenv, Run SetupInstall]\<rparr>) = (Inr st, w')"
  using assms
  by (auto simp: regenerate_def and_then_Inr call_True_Inr cloned_def Let_def)

lemma quiet_since_refl: "quiet_since w w"
  by (simp add: quiet_since_def)

lemma quiet_since_trans: "quiet_since a b \<Longrightarrow> quiet_since b c \<Longrightarrow> quiet_since a c"
  by (auto simp: quiet_since_def)

lemma process_document_quiet:
  assumes "process_document account preferred doc st w = (Inr st1, w1)"
  shows "quiet_since w w1"
proof (cases "doc_id (snd doc) \<notin> processed st \<and> doc_name (snd doc) \<noteq> ''discovery''
            \<and> preferred (doc_id (snd doc)) = Some True")
  case True
  with process_document_generated [OF assms] show ?thesis
    by (auto simp: quiet_since_def)
next
  case False
  with process_document_untouched [OF assms] show ?thesis by (simp add: quiet_since_refl)
qed

lemma process_documents_quiet:
  "process_documents account preferred docs st w = (Inr st1, w1) \<Longrightarrow> quiet_since w w1"
proof (induction docs arbitrary: st w)
  case Nil
  then show ?case by (simp add: quiet_since_refl)
next
  case (Cons doc docs)
  from Cons.prems obtain sa wa where
    a: "process_document account preferred doc st w = (Inr sa, wa)"
    and b: "process_documents account preferred docs sa wa = (Inr st1, w1)"
    by (auto split: prod.splits sum.splits)
  from process_document_quiet [OF a] Cons.IH [OF b] show ?case
    by (rule quiet_since_trans)
qed

lemma regenerate_quiet:
  assumes "regenerate account w = (Inr st, w')"
  shows "quiet_since w w'"
proof -
  from process_documents_quiet [OF regenerate_Inr [OF assms]]
  show ?thesis by (auto simp: quiet_since_def)
qed

section \<open>Classification and the run without a commit\<close>

text \<open>
  C2. Split a run of the loop at a document that passes the dedup guard and whose commit
  succeeds. At the end of the run its id is in \<open>added\<close> exactly when the service file
  of the name derived from the generator's listing did not exist in the service directory
  when the iteration began, and in \<open>updated\<close> exactly when it did; \<open>added\<close> and
  \<open>updated\<close> are disjoint.
\<close>

theorem classification_exact:
  assumes before: "process_documents account preferred before initial_state w0 = (Inr st, w)"
    and fresh: "doc_id (snd doc) \<notin> processed st"
    and step: "process_document account preferred doc st w = (Inr st1, w1)"
    and committed: "commit_count st1 = commit_count st + 1"
    and after: "process_documents account preferred after st1 w1 = (Inr st2, w2)"
  shows "\<exists>e es. generator w (fst doc) = Some (e # es) \<and>
           (doc_id (snd doc) \<in> added st2
              \<longleftrightarrow> \<not> path_exists (fst (splitext (fst e)) @ ''.php'') (service_dir w)) \<and>
           (doc_id (snd doc) \<in> updated st2
              \<longleftrightarrow> path_exists (fst (splitext (fst e)) @ ''.php'') (service_dir w)) \<and>
           added st2 \<inter> updated st2 = {} \<and>
           process_documents account preferred (before @ doc # after) initial_state w0 = (Inr st2, w2)"
proof -
  let ?i = "doc_id (snd doc)"
  from process_documents_consistent [OF before consistent_initial]
  have c0: "consistent_state st" by simp
  with fresh have notin: "?i \<notin> added st" "?i \<notin> updated st"
    by (auto simp: consistent_state_def)
  from process_document_consistent [OF step c0] have c1: "consistent_state st1" by simp
  from process_documents_consistent [OF after c1]
  have c2: "consistent_state st2" and mono: "added st1 \<subseteq> added st2" "updated st1 \<subseteq> updated st2"
    by simp_all
  from c2 have disj: "added st2 \<inter> updated st2 = {}" by (simp add: consistent_state_def)
  have elig: "doc_id (snd doc) \<notin> processed st \<and> doc_name (snd doc) \<noteq> ''discovery''
            \<and> preferred (doc_id (snd doc)) = Some True"
    using process_document_untouched [OF step] committed by auto
  from process_document_generated [OF step] elig obtain e es s rc where
    gen: "generator w (fst doc) = Some (e # es)" and s: "s = fst (splitext (fst e))"
    and st1: "st1 = commit_outcome ?i (st\<lparr>processed := insert ?i (processed st)\<rparr>)
                     (path_exists (s @ ''.php'') (service_dir w)) rc"
    by blast
  from st1 committed have rc: "rc = 0" by (auto simp: commit_outcome_def split: if_splits)
  let ?ex = "path_exists (s @ ''.php'') (service_dir w)"
  from st1 rc notin have in1: "(?i \<in> added st1) = (\<not> ?ex)" "(?i \<in> updated st1) = ?ex"
    by (auto simp: commit_outcome_def)
  from in1 mono disj have "(?i \<in> added st2) = (\<not> ?ex)" "(?i \<in> updated st2) = ?ex"
    by auto
  moreover have "process_documents account preferred (before @ doc # after) initial_state w0 = (Inr st2, w2)"
    by (simp add: process_documents_append before step after)
  ultimately show ?thesis using gen s disj by blast
qed

theorem classification_exact_witness:
  "process_documents example_account (load_preferred (index_items catalog_world)) [] initial_state
       (cloned catalog_world) = (Inr initial_state, cloned catalog_world)
   \<and> doc_id (snd doc_a) \<notin> processed initial_state
   \<and> fst (process_document example_account (load_preferred (index_items catalog_world)) doc_a
        initial_state (cloned catalog_world)) = Inr state_a
   \<and> commit_count state_a = commit_count initial_state + 1
   \<and> fst (process_documents example_account (load_preferred (index_items catalog_world))
        [doc_a_copy, doc_b] state_a
        (snd (process_document example_account (load_preferred (index_items catalog_world)) doc_a
               initial_state (cloned catalog_world)))) = Inr state_ab
   \<and> \<not> path_exists ''A.php'' (service_dir (cloned catalog_world))
   \<and> doc_id (snd doc_a) \<in> added state_ab \<and> doc_id (snd doc_a) \<notin> updated state_ab"
proof -
  let ?p = "load_preferred (index_items catalog_world)"
  let ?w = "cloned catalog_world"
  let ?w1 = "snd (process_document example_account ?p doc_a initial_state ?w)"
  have 1: "process_documents example_account ?p [] initial_state ?w = (Inr initial_state, ?w)"
    by simp
  have 2: "doc_id (snd doc_a) \<notin> processed initial_state" by (simp add: initial_state_def)
  have 3: "fst (process_document example_account ?p doc_a initial_state ?w) = Inr state_a"
    by code_simp
  then have step: "process_document example_account ?p doc_a initial_state ?w = (Inr state_a, ?w1)"
    by (simp add: prod_eq_iff)
  have 4: "commit_count state_a = commit_count initial_state + 1"
    by (simp add: state_a_def initial_state_def)
  have b: "?p (doc_id (snd doc_b)) = Some False"
    by (simp add: load_preferred_def catalog_world_def doc_b_def)
  have 5: "process_documents example_account ?p [doc_a_copy, doc_b] state_a ?w1 = (Inr state_ab, ?w1)"
    using b
    by (simp add: process_document_seen process_document_excluded doc_a_copy_def doc_b_def
          state_a_def state_ab_def)
  have 6: "\<not> path_exists ''A.php'' (service_dir ?w)" by code_simp
  have 7: "generator ?w (fst doc_a) = Some [(''A.php'', File ''<?php A''), (''A'', Directory ''A/*'')]"
    by (simp add: cloned_def catalog_world_def doc_a_def)
  have 8: "fst (splitext ''A.php'') = ''A''" by code_simp
  from classification_exact [OF 1 2 step 4 5] 7 8 6
  have "doc_id (snd doc_a) \<in> added state_ab \<and> doc_id (snd doc_a) \<notin> updated state_ab"
    by auto
  with 1 2 3 4 5 6 show ?thesis by simp
qed

text \<open>
  C4. When the handler reaches the end of the loop with \<open>commit_count\<close> zero, what
  follows the loop does nothing: the handler returns the empty body, the world is the
  one at the end of the loop with the temporary directory gone, the remote is unchanged,
  and the trace of the whole run has no soft reset, no commit with a message, no remote
  and no push.
\<close>

theorem no_commit_no_publish:
  assumes hdr: "headers_get req ''X-Appengine-Cron'' \<noteq> None"
    and acc: "accounts w = account # others"
    and run: "regenerate account (w\<lparr>trace := trace w @ [DatastoreQuery, TemporaryDirectory]\<rparr>)
                = (Inr st, w')"
    and cc: "commit_count st = 0"
  shows "publish account st w' = (Inr [], w')
         \<and> cron_clients_php_update req w
             = (Inr [], w'\<lparr>history := [], tags := [], service_dir := [], tmp_dir2 := []\<rparr>)
         \<and> remote w' = remote w
         \<and> quiet_since w (snd (cron_clients_php_update req w))"
proof -
  from process_documents_consistent [OF regenerate_Inr [OF run] consistent_initial]
  have "consistent_state st" by simp
  with cc have rc: "returncode st = - 1" by (simp add: consistent_state_def)
  then have p: "publish account st w' = (Inr [], w')" by (simp add: publish_def return_def)
  from hdr acc run p have "cron_clients_php_update req w
             = (Inr [], w'\<lparr>history := [], tags := [], service_dir := [], tmp_dir2 := []\<rparr>)"
    by (auto simp: cron_clients_php_update_def and_then_def get_github_account_def with_tmp_dir_def
          Let_def)
  moreover from process_documents_same_inputs [OF regenerate_Inr [OF run]]
  have "remote w' = remote w" by (simp add: same_inputs_def cloned_def)
  moreover from regenerate_quiet [OF run] have "quiet_since w w'"
    by (auto simp: quiet_since_def)
  ultimately show ?thesis using p by (simp add: quiet_since_def)
qed

theorem no_commit_no_publish_witness:
  "headers_get cron_request ''X-Appengine-Cron'' \<noteq> None
   \<and> accounts settled_world = example_account # []
   \<and> map_sum id commit_count
        (fst (regenerate example_account
                (settled_world\<lparr>trace := trace settled_world @ [DatastoreQuery, TemporaryDirectory]\<rparr>)))
       = Inr 0
   \<and> fst (cron_clients_php_update cron_request settled_world) = Inr []
   \<and> remote (snd (cron_clients_php_update cron_request settled_world)) = remote settled_world
   \<and> quiet_since settled_world (snd (cron_clients_php_update cron_request settled_world))"
proof -
  let ?w = "settled_world\<lparr>trace := trace settled_world @ [DatastoreQuery, TemporaryDirectory]\<rparr>"
  have 1: "accounts settled_world = example_account # []"
    by (simp add: settled_world_def catalog_world_def example_world_def)
  have 2: "map_sum id commit_count (fst (regenerate example_account ?w)) = Inr 0"
    by code_simp
  then obtain st where 3: "fst (regenerate example_account ?w) = Inr st" and 4: "commit_count st = 0"
    by (cases "fst (regenerate example_account ?w)") auto
  from 3 have 5: "regenerate example_account ?w = (Inr st, snd (regenerate example_account ?w))"
    by (simp add: prod_eq_iff)
  note n = no_commit_no_publish [OF cron_request_header 1 5 4]
  from n have 6: "fst (cron_clients_php_update cron_request settled_world) = Inr []" by simp
  from n have 7: "remote (snd (cron_clients_php_update cron_request settled_world))
                    = remote settled_world" by simp
  from n have 8: "quiet_since settled_world (snd (cron_clients_php_update cron_request settled_world))"
    by blast
  from cron_request_header 1 2 6 7 8 show ?thesis by (intro conjI)
qed

section \<open>Two runs in a row\<close>

lemma agreeing_same:
  assumes "agreeing ws" and "(p, n) \<in> set ws" and "(p, n') \<in> set ws"
  shows "n = n'"
proof -
  from assms(1,2) have "map_of ws p = Some n" by (force simp: agreeing_def list_all_iff)
  moreover from assms(1,3) have "map_of ws p = Some n'" by (force simp: agreeing_def list_all_iff)
  ultimately show ?thesis by simp
qed

lemma map_of_remove_path: "map_of (remove_path p t) = (map_of t)(p := None)"
  by (induction t) (auto simp: remove_path_def)

lemma map_of_write_path: "map_of (write_path p n t) = (map_of t)(p \<mapsto> n)"
  by (auto simp: write_path_def map_of_remove_path)

lemma map_of_replaced:
  "map_of (replaced s c n t) = (map_of t)(s @ ''.php'' \<mapsto> File c, s \<mapsto> n)"
  by (auto simp: replaced_def map_of_write_path map_of_remove_path fun_eq_iff)

lemma same_tree_iff: "same_tree s t \<longleftrightarrow> map_of s = map_of t"
proof
  assume a: "same_tree s t"
  show "map_of s = map_of t"
  proof
    fix p
    show "map_of s p = map_of t p"
    proof (cases "p \<in> fst ` set s \<union> fst ` set t")
      case True
      with a show ?thesis by (auto simp: same_tree_def list_all_iff)
    next
      case False
      then have "map_of s p = None" "map_of t p = None" by (simp_all add: map_of_eq_None_iff)
      then show ?thesis by simp
    qed
  qed
next
  assume "map_of s = map_of t"
  then show "same_tree s t" by (simp add: same_tree_def list_all_iff)
qed

lemma process_document_generated_ok:
  assumes nb: "\<forall>c. \<not> broken w c"
    and el: "doc_id (snd doc) \<notin> processed st" "doc_name (snd doc) \<noteq> ''discovery''"
      "preferred (doc_id (snd doc)) = Some True"
    and gen: "generator w (fst doc) = Some (e # es)" "s = fst (splitext (fst e))"
      "map_of (e # es) (s @ ''.php'') = Some (File c)" "map_of (e # es) s = Some n"
    and rc: "rc = (if \<not> same_tree (replaced s c n (service_dir w)) (head_tree (history w))
                   then 0 else 1)"
  shows "process_document account preferred doc st w =
           (Inr (commit_outcome (doc_id (snd doc))
                     (st\<lparr>processed := insert (doc_id (snd doc)) (processed st)\<rparr>)
                     (path_exists (s @ ''.php'') (service_dir w)) rc),
            w\<lparr>trace := trace w @ [TemporaryDirectory, Run (GenerateLibrary (fst doc)),
                        Run (RmRf s), Run (Cp s), Run (CpR s), Run (GitAdd ''src''),
                        Run (GitCommit PhpClientServices (acc_name account) (acc_email account) [])],
                     service_dir := replaced s c n (service_dir w), tmp_dir2 := [],
                     history := (if rc = 0 then ([], replaced s c n (service_dir w)) # history w
                                 else history w)\<rparr>)"
proof -
  have g: "generate_service (fst doc) w =
           (Inr (path_exists (s @ ''.php'') (service_dir w)),
            w\<lparr>trace := trace w @ [TemporaryDirectory, Run (GenerateLibrary (fst doc)), Run (RmRf s),
                                    Run (Cp s), Run (CpR s)],
              service_dir := replaced s c n (service_dir w), tmp_dir2 := []\<rparr>)"
    using nb gen by (intro generate_service_ok) simp_all
  show ?thesis
    unfolding process_document_generate [of doc st preferred, OF el] g
    using nb rc by (simp add: call_unbroken call_commit)
qed

lemma eligible_step:
  assumes "process_document account preferred doc st w = (Inr st1, w1)"
  shows "eligible preferred (processed st) (doc # docs) =
           (if doc_id (snd doc) \<notin> processed st \<and> doc_name (snd doc) \<noteq> ''discovery''
                \<and> preferred (doc_id (snd doc)) = Some True then [doc] else [])
           @ eligible preferred (processed st1) docs"
proof (cases "doc_id (snd doc) \<in> processed st")
  case True
  with assms have "st1 = st" by (simp add: process_document_seen)
  with True show ?thesis by simp
next
  case False
  from process_document_state [OF assms False]
  have "processed st1 = insert (doc_id (snd doc)) (processed st)" by simp
  with False show ?thesis by simp
qed

lemma artifact_writes_generated:
  assumes "s = fst (splitext (fst e))" and "map_of (e # es) (s @ ''.php'') = Some (File c)"
    and "map_of (e # es) s = Some n"
  shows "artifact_writes (e # es) = [(s @ ''.php'', File c), (s, n)]"
  using assms by (simp add: artifact_writes_def Let_def del: map_of.simps)

lemma writes_of_Cons:
  "writes_of gen (doc # docs) =
     (case gen (fst doc) of None \<Rightarrow> [] | Some out \<Rightarrow> artifact_writes out) @ writes_of gen docs"
  by (simp add: writes_of_def)

lemma writes_present:
  assumes "process_documents account preferred docs st w = (Inr st', w')"
    and "\<forall>e \<in> set (writes_of (generator w) (eligible preferred (processed st) docs)).
           fst e = p \<longrightarrow> snd e = n"
    and "map_of (service_dir w) p = Some n
         \<or> (p, n) \<in> set (writes_of (generator w) (eligible preferred (processed st) docs))"
  shows "map_of (service_dir w') p = Some n"
  using assms
proof (induction docs arbitrary: st w)
  case Nil
  then show ?case by (simp add: writes_of_def)
next
  case (Cons doc docs)
  from Cons.prems(1) obtain sa wa where
    a: "process_document account preferred doc st w = (Inr sa, wa)"
    and b: "process_documents account preferred docs sa wa = (Inr st', w')"
    by (auto split: prod.splits sum.splits)
  let ?E = "eligible preferred (processed sa) docs"
  from process_document_same_inputs [OF a] have gen: "generator wa = generator w"
    by (simp add: same_inputs_def)
  show ?case
  proof (cases "doc_id (snd doc) \<notin> processed st \<and> doc_name (snd doc) \<noteq> ''discovery''
                \<and> preferred (doc_id (snd doc)) = Some True")
    case True
    from process_document_generated [OF a] True obtain e es s c m where
      g: "generator w (fst doc) = Some (e # es)" "s = fst (splitext (fst e))"
         "map_of (e # es) (s @ ''.php'') = Some (File c)" "map_of (e # es) s = Some m"
      and sd: "service_dir wa = replaced s c m (service_dir w)"
      by auto
    have E: "writes_of (generator w) (eligible preferred (processed st) (doc # docs))
               = [(s @ ''.php'', File c), (s, m)] @ writes_of (generator w) ?E"
      unfolding eligible_step [OF a] using True g
      by (simp add: writes_of_Cons artifact_writes_generated del: map_of.simps)
    have mp: "map_of (service_dir wa) = (map_of (service_dir w))(s @ ''.php'' \<mapsto> File c, s \<mapsto> m)"
      by (simp add: sd map_of_replaced)
    from Cons.prems(2) have ag: "\<forall>e \<in> set (writes_of (generator wa) ?E). fst e = p \<longrightarrow> snd e = n"
      unfolding E gen by simp
    from Cons.prems(2) have hd: "p = s @ ''.php'' \<longrightarrow> n = File c" "p = s \<longrightarrow> n = m"
      unfolding E by auto
    from Cons.prems(3) have "map_of (service_dir wa) p = Some n \<or> (p, n) \<in> set (writes_of (generator wa) ?E)"
      unfolding E gen mp using hd by auto
    from Cons.IH [OF b ag this] show ?thesis .
  next
    case False
    from process_document_untouched [OF a False] have wa: "wa = w" by simp
    have E: "eligible preferred (processed st) (doc # docs) = ?E"
      unfolding eligible_step [OF a] using False by simp
    from Cons.prems(2,3) show ?thesis
      unfolding E by (intro Cons.IH [OF b]) (simp_all add: wa)
  qed
qed

lemma loop_clean:
  assumes "process_documents account preferred docs st w = (Inr st', w')"
    and "\<forall>c. \<not> broken w c" and "clean w"
  shows "clean w' \<and> commit_count st \<le> commit_count st'
         \<and> drop (commit_count st' - commit_count st) (history w') = history w"
  using assms
proof (induction docs arbitrary: st w)
  case Nil
  then show ?case by simp
next
  case (Cons doc docs)
  from Cons.prems(1) obtain sa wa where
    a: "process_document account preferred doc st w = (Inr sa, wa)"
    and b: "process_documents account preferred docs sa wa = (Inr st', w')"
    by (auto split: prod.splits sum.splits)
  from process_document_same_inputs [OF a] Cons.prems(2) have nb: "\<forall>c. \<not> broken wa c"
    by (simp add: same_inputs_def)
  have step: "clean wa \<and> commit_count st \<le> commit_count sa
              \<and> drop (commit_count sa - commit_count st) (history wa) = history w"
  proof (cases "doc_id (snd doc) \<notin> processed st \<and> doc_name (snd doc) \<noteq> ''discovery''
                \<and> preferred (doc_id (snd doc)) = Some True")
    case True
    from process_document_generated [OF a] True obtain s c m rc where
      rc: "rc = (if \<not> same_tree (replaced s c m (service_dir w)) (head_tree (history w)) then 0 else 1)"
      and sa: "sa = commit_outcome (doc_id (snd doc))
                     (st\<lparr>processed := insert (doc_id (snd doc)) (processed st)\<rparr>)
                     (path_exists (s @ ''.php'') (service_dir w)) rc"
      and sd: "service_dir wa = replaced s c m (service_dir w)"
      and h: "history wa = (if rc = 0 then ([], replaced s c m (service_dir w)) # history w
                                 else history w)"
      using Cons.prems(2) by auto
    show ?thesis
    proof (cases "rc = 0")
      case True
      with sa sd h show ?thesis by (simp add: clean_def head_tree_def commit_outcome_def)
    next
      case False
      with rc have "same_tree (replaced s c m (service_dir w)) (head_tree (history w))"
        by (simp split: if_splits)
      with False sa sd h show ?thesis by (simp add: clean_def same_tree_iff commit_outcome_def)
    qed
  next
    case False
    from process_document_untouched [OF a False] Cons.prems(3) show ?thesis by simp
  qed
  from Cons.IH [OF b nb] step
  have ih: "clean w'" "commit_count sa \<le> commit_count st'"
    "drop (commit_count st' - commit_count sa) (history w') = history wa" by simp_all
  have "commit_count st' - commit_count st
          = (commit_count sa - commit_count st) + (commit_count st' - commit_count sa)"
    using step ih(2) by simp
  then have "drop (commit_count st' - commit_count st) (history w')
               = drop (commit_count sa - commit_count st)
                   (drop (commit_count st' - commit_count sa) (history w'))"
    by (simp only: drop_drop)
  also have "\<dots> = history w" using step ih(3) by simp
  finally show ?case using step ih by simp
qed

lemma loop_noop:
  assumes "process_documents account preferred docs st w = (Inr st', w')"
    and "processed st2 = processed st" and "generator v = generator w"
    and "\<forall>c. \<not> broken v c" and "clean v"
    and "\<forall>e \<in> set (writes_of (generator w) (eligible preferred (processed st) docs)).
           map_of (service_dir v) (fst e) = Some (snd e)"
  shows "\<exists>st2' v'. process_documents account preferred docs st2 v = (Inr st2', v')
           \<and> commit_count st2' = commit_count st2"
  using assms
proof (induction docs arbitrary: st w st2 v)
  case Nil
  then show ?case by simp
next
  case (Cons doc docs)
  from Cons.prems(1) obtain sa wa where
    a: "process_document account preferred doc st w = (Inr sa, wa)"
    and b: "process_documents account preferred docs sa wa = (Inr st', w')"
    by (auto split: prod.splits sum.splits)
  let ?i = "doc_id (snd doc)"
  let ?E = "eligible preferred (processed sa) docs"
  from process_document_same_inputs [OF a] have gen: "generator wa = generator w"
    by (simp add: same_inputs_def)
  have "\<exists>sb vb. process_document account preferred doc st2 v = (Inr sb, vb)
          \<and> commit_count sb = commit_count st2 \<and> processed sb = processed sa
          \<and> generator vb = generator wa \<and> (\<forall>c. \<not> broken vb c) \<and> clean vb
          \<and> (\<forall>e \<in> set (writes_of (generator wa) ?E). map_of (service_dir vb) (fst e) = Some (snd e))"
  proof (cases "?i \<notin> processed st \<and> doc_name (snd doc) \<noteq> ''discovery'' \<and> preferred ?i = Some True")
    case True
    from process_document_generated [OF a] True obtain e es s c m where
      g: "generator w (fst doc) = Some (e # es)" "s = fst (splitext (fst e))"
         "map_of (e # es) (s @ ''.php'') = Some (File c)" "map_of (e # es) s = Some m"
      by auto
    have E: "writes_of (generator w) (eligible preferred (processed st) (doc # docs))
               = [(s @ ''.php'', File c), (s, m)] @ writes_of (generator w) ?E"
      unfolding eligible_step [OF a] using True g
      by (simp add: writes_of_Cons artifact_writes_generated del: map_of.simps)
    from Cons.prems(6) have here: "map_of (service_dir v) (s @ ''.php'') = Some (File c)"
      "map_of (service_dir v) s = Some m"
      and rest: "\<forall>e \<in> set (writes_of (generator w) ?E). map_of (service_dir v) (fst e) = Some (snd e)"
      unfolding E by simp_all
    from here have same: "map_of (replaced s c m (service_dir v)) = map_of (service_dir v)"
      by (auto simp: map_of_replaced fun_eq_iff)
    with Cons.prems(5) have st: "same_tree (replaced s c m (service_dir v)) (head_tree (history v))"
      by (simp add: same_tree_iff clean_def)
    from True Cons.prems(2) have el: "?i \<notin> processed st2" "doc_name (snd doc) \<noteq> ''discovery''"
      "preferred ?i = Some True" by simp_all
    from g Cons.prems(3) have g2: "generator v (fst doc) = Some (e # es)" by simp
    have rc: "(1::int) = (if \<not> same_tree (replaced s c m (service_dir v)) (head_tree (history v))
                   then 0 else 1)" using st by simp
    note ok = process_document_generated_ok [where preferred = preferred and doc = doc
        and st = st2 and w = v and account = account, OF Cons.prems(4) el g2 g(2,3,4) rc]
    from process_document_state [OF a] True
    have psa: "processed sa = insert ?i (processed st)" by simp
    show ?thesis
      unfolding ok
      using Cons.prems(2,3,4,5) rest same psa gen
      by (simp add: commit_outcome_def clean_def)
  next
    case False
    from process_document_untouched [OF a False] have wa: "wa = w" by simp
    have E: "eligible preferred (processed st) (doc # docs) = ?E"
      unfolding eligible_step [OF a] using False by simp
    show ?thesis
    proof (cases "?i \<in> processed st")
      case True
      with a have "sa = st" by (simp add: process_document_seen)
      with True Cons.prems(2-6) show ?thesis
        unfolding E by (simp add: process_document_seen wa)
    next
      case nin: False
      from process_document_state [OF a nin]
      have psa: "processed sa = insert ?i (processed st)" by simp
      have "preferred ?i \<noteq> None \<or> doc_name (snd doc) = ''discovery''"
        using a nin process_document_KeyError [of doc st preferred account w] by auto
      with False nin have ex: "doc_name (snd doc) = ''discovery'' \<or> preferred ?i = Some False"
        by (cases "preferred ?i") auto
      from nin Cons.prems(2) have "?i \<notin> processed st2" by simp
      from process_document_excluded [where preferred = preferred and doc = doc and st = st2
          and account = account and w = v, OF this ex] Cons.prems(2-6) psa
      show ?thesis unfolding E by (simp add: wa)
    qed
  qed
  then obtain sb vb where
    s: "process_document account preferred doc st2 v = (Inr sb, vb)"
    and c: "commit_count sb = commit_count st2" and p: "processed sb = processed sa"
    and g: "generator vb = generator wa" and nb: "\<forall>c. \<not> broken vb c" and cl: "clean vb"
    and pr: "\<forall>e \<in> set (writes_of (generator wa) ?E). map_of (service_dir vb) (fst e) = Some (snd e)"
    by blast
  from Cons.IH [OF b p g nb cl pr] obtain st2' v' where
    "process_documents account preferred docs sb vb = (Inr st2', v')"
    "commit_count st2' = commit_count sb" by blast
  with s c show ?case by simp
qed

lemma with_tmp_dir_Inr:
  "with_tmp_dir body w = (Inr x, w') \<longleftrightarrow>
     (\<exists>w1. body (w\<lparr>trace := trace w @ [TemporaryDirectory]\<rparr>) = (Inr x, w1)
           \<and> w' = w1\<lparr>history := [], tags := [], service_dir := [], tmp_dir2 := []\<rparr>)"
  by (auto simp: with_tmp_dir_def split: prod.splits)

lemma cron_clients_php_update_Inr:
  assumes "cron_clients_php_update req w = (Inr body, w1)"
    and "headers_get req ''X-Appengine-Cron'' \<noteq> None" and "accounts w = account # others"
  shows "\<exists>st w' wp.
           regenerate account (w\<lparr>trace := trace w @ [DatastoreQuery, TemporaryDirectory]\<rparr>) = (Inr st, w')
           \<and> publish account st w' = (Inr body, wp)
           \<and> w1 = wp\<lparr>history := [], tags := [], service_dir := [], tmp_dir2 := []\<rparr>"
  using assms
  by (auto simp: cron_clients_php_update_def and_then_Inr with_tmp_dir_Inr get_github_account_def
        Let_def)

lemma publish_Inr:
  assumes "publish account st w' = (Inr body, wp)" and "\<forall>c. \<not> broken w' c"
  shows "(if returncode st = 0
          then remote wp = (commit_message (today w') (added st) (updated st), service_dir w')
                             # drop (commit_count st) (history w')
          else remote wp = remote w')
         \<and> broken wp = broken w' \<and> generator wp = generator w' \<and> index_items wp = index_items w'
         \<and> discovery_documents wp = discovery_documents w' \<and> accounts wp = accounts w'"
  using assms
  by (auto simp: publish_def and_then_Inr call_True_Inr return_def Let_def split: if_splits)

lemma regenerate_unbroken:
  assumes "\<forall>c. \<not> broken v c"
  shows "regenerate account v =
           process_documents account (load_preferred (index_items v))
             (filter (\<lambda>doc. fst doc \<noteq> ''index.json'') (discovery_documents v)) initial_state
             ((cloned v)\<lparr>trace := trace v @ [Run (GitClone DiscoveryArtifactManager),
                 Run (GitClone PhpClientServices), Run Virtualenv, Run SetupInstall]\<rparr>)"
  using assms
  by (simp add: regenerate_def and_then_def call_unbroken cloned_def Let_def)

text \<open>
  C9, as stated, fails. In \<open>clash_world\<close> the documents \<^verbatim>\<open>a:v1\<close> and \<^verbatim>\<open>t:v1\<close>
  both generate the service \<^verbatim>\<open>A\<close> with different content. The first run succeeds and
  pushes the content of the second document. The second run, with the same catalog and the
  same generator output, commits twice in the loop, and its aggregate commit then finds
  nothing to commit and raises.
\<close>

theorem second_run_commits_counterexample:
  "headers_get cron_request ''X-Appengine-Cron'' \<noteq> None
   \<and> \<not> agreeing (planned_writes clash_world)
   \<and> fst (cron_clients_php_update cron_request clash_world) = Inr []
   \<and> map_sum id commit_count
        (fst (regenerate example_account
               ((snd (cron_clients_php_update cron_request clash_world))
                  \<lparr>trace := trace (snd (cron_clients_php_update cron_request clash_world))
                             @ [DatastoreQuery, TemporaryDirectory]\<rparr>))) = Inr 2
   \<and> fst (cron_clients_php_update cron_request
             (snd (cron_clients_php_update cron_request clash_world)))
       = Inl (CalledProcessError 1
                (GitCommit PhpClientServices ''bot'' ''bot@example.com''
                   (commit_message ''2017-06-01'' {} {''a:v1'', ''t:v1''})))"
  by code_simp

text \<open>
  C9, amended. If no two documents that pass the dedup guard and the exclusion filter
  write different content to the same path, no command fails for an outside reason, and
  a first run returns, then a second run on the world the first one left reaches the end
  of its loop with \<open>commit_count\<close> zero.
\<close>

theorem second_run_no_commit:
  assumes hdr: "headers_get req ''X-Appengine-Cron'' \<noteq> None"
    and acc: "accounts w = account # others"
    and nb: "\<forall>c. \<not> broken w c"
    and ag: "agreeing (planned_writes w)"
    and run1: "cron_clients_php_update req w = (Inr body, w1)"
  shows "\<exists>st2 w2. regenerate account (w1\<lparr>trace := trace w1 @ [DatastoreQuery, TemporaryDirectory]\<rparr>)
                     = (Inr st2, w2) \<and> commit_count st2 = 0"
proof -
  let ?w0 = "w\<lparr>trace := trace w @ [DatastoreQuery, TemporaryDirectory]\<rparr>"
  let ?wc = "(cloned ?w0)\<lparr>trace := trace ?w0 @ [Run (GitClone DiscoveryArtifactManager),
                 Run (GitClone PhpClientServices), Run Virtualenv, Run SetupInstall]\<rparr>"
  let ?pref = "load_preferred (index_items w)"
  let ?docs = "filter (\<lambda>doc. fst doc \<noteq> ''index.json'') (discovery_documents w)"
  from cron_clients_php_update_Inr [OF run1 hdr acc] obtain st w' wp where
    r1: "regenerate account ?w0 = (Inr st, w')"
    and p1: "publish account st w' = (Inr body, wp)"
    and w1: "w1 = wp\<lparr>history := [], tags := [], service_dir := [], tmp_dir2 := []\<rparr>"
    by blast
  from regenerate_Inr [OF r1]
  have l1: "process_documents account ?pref ?docs initial_state ?wc = (Inr st, w')" by simp
  from process_documents_same_inputs [OF l1]
  have si: "broken w' = broken w" "generator w' = generator w" "index_items w' = index_items w"
    "discovery_documents w' = discovery_documents w" "remote w' = remote w"
    by (simp_all add: same_inputs_def cloned_def)
  have nbc: "\<forall>c. \<not> broken ?wc c" using nb by (simp add: cloned_def)
  have clc: "clean ?wc" by (simp add: clean_def cloned_def)
  from loop_clean [OF l1 nbc clc]
  have cl: "clean w'" and dr: "drop (commit_count st) (history w') = remote w"
    by (simp_all add: initial_state_def cloned_def)
  from process_documents_consistent [OF l1 consistent_initial]
  have cs: "consistent_state st" by simp
  from nb si have nb': "\<forall>c. \<not> broken w' c" by simp
  note pub = publish_Inr [OF p1 nb']
  have tree: "map_of (head_tree (remote w1)) = map_of (service_dir w')"
  proof (cases "returncode st = 0")
    case True
    with pub show ?thesis by (simp add: w1 head_tree_def)
  next
    case False
    with cs have "commit_count st = 0" by (auto simp: consistent_state_def split: if_splits)
    with dr have "history w' = remote w" by simp
    with cl False pub si show ?thesis by (simp add: w1 clean_def)
  qed
  have gw: "generator ?wc = generator w" by (simp add: cloned_def)
  have present: "\<forall>e \<in> set (writes_of (generator ?wc) (eligible ?pref (processed initial_state) ?docs)).
                   map_of (service_dir w') (fst e) = Some (snd e)"
  proof
    fix e
    assume e: "e \<in> set (writes_of (generator ?wc) (eligible ?pref (processed initial_state) ?docs))"
    then have pe: "(fst e, snd e) \<in> set (planned_writes w)"
      by (simp add: planned_writes_def initial_state_def cloned_def)
    have "\<forall>e' \<in> set (writes_of (generator ?wc) (eligible ?pref (processed initial_state) ?docs)).
            fst e' = fst e \<longrightarrow> snd e' = snd e"
    proof (intro ballI impI)
      fix e'
      assume "e' \<in> set (writes_of (generator ?wc) (eligible ?pref (processed initial_state) ?docs))"
        and f: "fst e' = fst e"
      then have "(fst e, snd e') \<in> set (planned_writes w)"
        by (simp add: planned_writes_def initial_state_def cloned_def flip: f)
      from agreeing_same [OF ag this pe] show "snd e' = snd e" .
    qed
    moreover from e have "map_of (service_dir ?wc) (fst e) = Some (snd e)
         \<or> (fst e, snd e) \<in> set (writes_of (generator ?wc) (eligible ?pref (processed initial_state) ?docs))"
      by simp
    ultimately show "map_of (service_dir w') (fst e) = Some (snd e)"
      by (rule writes_present [OF l1])
  qed
  let ?v0 = "w1\<lparr>trace := trace w1 @ [DatastoreQuery, TemporaryDirectory]\<rparr>"
  let ?vc = "(cloned ?v0)\<lparr>trace := trace ?v0 @ [Run (GitClone DiscoveryArtifactManager),
                 Run (GitClone PhpClientServices), Run Virtualenv, Run SetupInstall]\<rparr>"
  from pub si have inputs: "broken w1 = broken w" "generator w1 = generator w"
    "index_items w1 = index_items w" "discovery_documents w1 = discovery_documents w"
    by (simp_all add: w1)
  have nbv: "\<forall>c. \<not> broken ?v0 c" using nb inputs by simp
  have r2: "regenerate account ?v0 = process_documents account ?pref ?docs initial_state ?vc"
    unfolding regenerate_unbroken [OF nbv] using inputs by simp
  have "\<exists>st2' v'. process_documents account ?pref ?docs initial_state ?vc = (Inr st2', v')
           \<and> commit_count st2' = commit_count initial_state"
  proof (rule loop_noop [OF l1])
    show "processed initial_state = processed initial_state" by simp
    show "generator ?vc = generator ?wc" using inputs by (simp add: cloned_def)
    show "\<forall>c. \<not> broken ?vc c" using nb inputs by (simp add: cloned_def)
    show "clean ?vc" by (simp add: clean_def cloned_def)
    show "\<forall>e \<in> set (writes_of (generator ?wc) (eligible ?pref (processed initial_state) ?docs)).
           map_of (service_dir ?vc) (fst e) = Some (snd e)"
      using present tree by (simp add: cloned_def)
  qed
  then show ?thesis unfolding r2 by (simp add: initial_state_def)
qed

theorem second_run_no_commit_witness:
  "headers_get cron_request ''X-Appengine-Cron'' \<noteq> None
   \<and> accounts catalog_world = example_account # []
   \<and> (\<forall>c. \<not> broken catalog_world c)
   \<and> agreeing (planned_writes catalog_world)
   \<and> fst (cron_clients_php_update cron_request catalog_world) = Inr []
   \<and> map_sum id commit_count
        (fst (regenerate example_account
               ((snd (cron_clients_php_update cron_request catalog_world))
                  \<lparr>trace := trace (snd (cron_clients_php_update cron_request catalog_world))
                             @ [DatastoreQuery, TemporaryDirectory]\<rparr>))) = Inr 0"
proof -
  let ?w1 = "snd (cron_clients_php_update cron_request catalog_world)"
  have 1: "accounts catalog_world = example_account # []"
    by (simp add: catalog_world_def example_world_def)
  have 2: "\<forall>c. \<not> broken catalog_world c"
    by (simp add: catalog_world_def example_world_def)
  have 3: "agreeing (planned_writes catalog_world)" by code_simp
  have 4: "fst (cron_clients_php_update cron_request catalog_world) = Inr []" by code_simp
  then have 5: "cron_clients_php_update cron_request catalog_world = (Inr [], ?w1)"
    by (simp add: prod_eq_iff)
  from second_run_no_commit [OF cron_request_header 1 2 3 5]
  have "map_sum id commit_count
        (fst (regenerate example_account (?w1\<lparr>trace := trace ?w1 @ [DatastoreQuery, TemporaryDirectory]\<rparr>)))
          = Inr 0"
    by auto
  with cron_request_header 1 2 3 4 show ?thesis by (intro conjI)
qed

section \<open>The generator calls and the processed ids of a run\<close>

lemma generated_files_append [simp]:
  "generated_files (a @ b) = generated_files a @ generated_files b"
  by (simp add: generated_files_def)

lemma generates_refl: "generates [] w w"
  by (simp add: generates_def generated_files_def)

lemma generates_trans: "generates fs a b \<Longrightarrow> generates gs b c \<Longrightarrow> generates (fs @ gs) a c"
  by (auto simp: generates_def)

lemma effect_trace: "effect c w = (rc, w') \<Longrightarrow> trace w' = trace w"
proof (cases c)
  case (GitClone r)
  assume "effect c w = (rc, w')"
  with GitClone show ?thesis by (cases r) auto
next
  case (GitCommit r a b m)
  assume "effect c w = (rc, w')"
  with GitCommit show ?thesis by (cases r) (auto split: if_splits)
next
  case (GitPush r)
  assume "effect c w = (rc, w')"
  with GitPush show ?thesis by (cases r) auto
qed (auto split: option.splits node.splits if_splits)

lemma call_trace: "call c chk w = (r, w') \<Longrightarrow> trace w' = trace w @ [Run c]"
  by (auto simp: call_def Let_def split: if_splits prod.splits dest: effect_trace)

lemma call_generates:
  "call c chk w = (r, w') \<Longrightarrow> generates (generated_files [Run c]) w w'"
  by (auto simp: generates_def dest: call_trace)

lemma and_then_cases:
  assumes "and_then m f w = (r, w')"
  obtains (fail) e where "m w = (Inl e, w')" "r = Inl e"
        | (ok) x w1 where "m w = (Inr x, w1)" "f x w1 = (r, w')"
  using assms by (auto simp: and_then_def split: prod.splits sum.splits)

lemma generate_service_generates:
  assumes "generate_service f w = (r, w')"
  shows "generates [f] w w'"
proof -
  define k where "k = (\<lambda>(x::int) w.
         case map fst (tmp_dir2 w) of
           [] \<Rightarrow> (Inl IndexError, w)
         | d # _ \<Rightarrow>
            (let service_name = fst (splitext d);
                 service_exists = path_exists (service_name @ ''.php'') (service_dir w)
             in and_then (call (RmRf service_name) True) (\<lambda>_.
                and_then (call (Cp service_name) True) (\<lambda>_.
                and_then (call (CpR service_name) True) (\<lambda>_.
                return service_exists))) w))"
  let ?w0 = "w\<lparr>trace := trace w @ [TemporaryDirectory], tmp_dir2 := []\<rparr>"
  have gs: "generate_service f = with_tmp_dir2 (and_then (call (GenerateLibrary f) True) k)"
    by (simp add: generate_service_def k_def)
  have kq: "generates [] v v'" if "k x v = (q, v')" for x v q v'
  proof (cases "map fst (tmp_dir2 v)")
    case Nil
    with that show ?thesis by (simp add: k_def generates_refl)
  next
    case (Cons d ds)
    define s where "s = fst (splitext d)"
    from that Cons have c: "and_then (call (RmRf s) True) (\<lambda>_.
                and_then (call (Cp s) True) (\<lambda>_.
                and_then (call (CpR s) True) (\<lambda>_.
                return (path_exists (s @ ''.php'') (service_dir v))))) v = (q, v')"
      by (simp add: k_def s_def Let_def)
    from c show ?thesis
    proof (cases rule: and_then_cases)
      case (fail e)
      from call_generates [OF fail(1)] show ?thesis by (simp add: generated_files_def)
    next
      case (ok x1 v1)
      from call_generates [OF ok(1)] have g1: "generates [] v v1" by (simp add: generated_files_def)
      from ok(2) show ?thesis
      proof (cases rule: and_then_cases)
        case (fail e)
        from call_generates [OF fail(1)] have "generates [] v1 v'" by (simp add: generated_files_def)
        with g1 show ?thesis by (auto dest: generates_trans)
      next
        case (ok x2 v2)
        from call_generates [OF ok(1)] have g2: "generates [] v1 v2" by (simp add: generated_files_def)
        from ok(2) show ?thesis
        proof (cases rule: and_then_cases)
          case (fail e)
          from call_generates [OF fail(1)] have "generates [] v2 v'" by (simp add: generated_files_def)
          with g1 g2 show ?thesis by (auto dest: generates_trans)
        next
          case (ok x3 v3)
          from call_generates [OF ok(1)] have g3: "generates [] v2 v3" by (simp add: generated_files_def)
          from ok(2) have "v' = v3" by (simp add: return_def)
          with g1 g2 g3 show ?thesis by (auto dest: generates_trans)
        qed
      qed
    qed
  qed
  from assms obtain w1 where
    b: "and_then (call (GenerateLibrary f) True) k ?w0 = (r, w1)" and w': "w' = w1\<lparr>tmp_dir2 := []\<rparr>"
    unfolding gs by (auto simp: with_tmp_dir2_def split: prod.splits)
  have "generates [f] ?w0 w1"
    using b
  proof (cases rule: and_then_cases)
    case (fail e)
    from call_generates [OF fail(1)] show ?thesis by (simp add: generated_files_def)
  next
    case (ok x v)
    from call_generates [OF ok(1)] have "generates [f] ?w0 v" by (simp add: generated_files_def)
    from generates_trans [OF this kq [OF ok(2)]] show ?thesis by simp
  qed
  then show ?thesis by (auto simp: generates_def w' generated_files_def)
qed

text \<open>Whatever the outcome of an iteration, it runs the generator once or not at all.\<close>

lemma process_document_generates:
  assumes "process_document account preferred doc st w = (r, w')"
  shows "generates (if doc_id (snd doc) \<notin> processed st \<and> doc_name (snd doc) \<noteq> ''discovery''
                       \<and> preferred (doc_id (snd doc)) = Some True then [fst doc] else []) w w'"
proof (cases "doc_id (snd doc) \<notin> processed st \<and> doc_name (snd doc) \<noteq> ''discovery''
                \<and> preferred (doc_id (snd doc)) = Some True")
  case True
  then have el: "doc_id (snd doc) \<notin> processed st" "doc_name (snd doc) \<noteq> ''discovery''"
    "preferred (doc_id (snd doc)) = Some True" by simp_all
  obtain q wa where g: "generate_service (fst doc) w = (q, wa)" by (cases "generate_service (fst doc) w")
  note g1 = generate_service_generates [OF g]
  show ?thesis
  proof (cases q)
    case (Inl e)
    with assms g have "w' = wa"
      unfolding process_document_generate [of doc st preferred, OF el] by simp
    with g1 True show ?thesis by simp
  next
    case (Inr ex)
    obtain q2 wb where a: "call (GitAdd ''src'') True wa = (q2, wb)"
      by (cases "call (GitAdd ''src'') True wa")
    from call_generates [OF a] have g2: "generates [] wa wb" by (simp add: generated_files_def)
    show ?thesis
    proof (cases q2)
      case (Inl e)
      with assms g Inr a have "w' = wb"
        unfolding process_document_generate [of doc st preferred, OF el] by simp
      with generates_trans [OF g1 g2] True show ?thesis by simp
    next
      case x: (Inr x)
      obtain q3 wc where c: "call (GitCommit PhpClientServices (acc_name account)
                               (acc_email account) []) False wb = (q3, wc)"
        by (cases "call (GitCommit PhpClientServices (acc_name account) (acc_email account) []) False wb")
      from call_generates [OF c] have g3: "generates [] wb wc" by (simp add: generated_files_def)
      from assms g Inr a x c have "w' = wc"
        unfolding process_document_generate [of doc st preferred, OF el]
        by (cases q3) simp_all
      with generates_trans [OF generates_trans [OF g1 g2] g3] True show ?thesis by simp
    qed
  qed
next
  case False
  have "w' = w"
  proof (cases "doc_id (snd doc) \<in> processed st")
    case True
    with assms show ?thesis by (simp add: process_document_seen)
  next
    case nin: False
    show ?thesis
    proof (cases "doc_name (snd doc) = ''discovery'' \<or> preferred (doc_id (snd doc)) = Some False")
      case True
      with nin assms show ?thesis by (auto simp: process_document_excluded)
    next
      case c: False
      with False nin have "preferred (doc_id (snd doc)) = None"
        by (cases "preferred (doc_id (snd doc))") auto
      with c nin assms show ?thesis by (simp add: process_document_KeyError)
    qed
  qed
  with False show ?thesis by (auto simp: generates_refl)
qed

lemma eligible_filter:
  "eligible preferred seen docs =
     filter (\<lambda>d. doc_name (snd d) \<noteq> ''discovery'' \<and> preferred (doc_id (snd d)) = Some True)
       (first_by_id seen docs)"
  by (induction docs arbitrary: seen) auto

lemma process_documents_processed:
  "process_documents account preferred docs st w = (Inr st', w') \<Longrightarrow>
     processed st' = processed st \<union> (\<lambda>d. doc_id (snd d)) ` set docs"
proof (induction docs arbitrary: st w)
  case Nil
  then show ?case by simp
next
  case (Cons doc docs)
  from Cons.prems obtain sa wa where
    a: "process_document account preferred doc st w = (Inr sa, wa)"
    and b: "process_documents account preferred docs sa wa = (Inr st', w')"
    by (auto split: prod.splits sum.splits)
  have "processed sa = insert (doc_id (snd doc)) (processed st)"
  proof (cases "doc_id (snd doc) \<in> processed st")
    case True
    with a show ?thesis by (auto simp: process_document_seen)
  next
    case False
    from process_document_state [OF a False] show ?thesis by simp
  qed
  with Cons.IH [OF b] show ?case by auto
qed

text \<open>
  The generator calls of a run, whatever its outcome: the files of the eligible documents
  in order, all of them when the loop returns, an initial part when it raises.
\<close>

lemma process_documents_generates:
  assumes "process_documents account preferred docs st w = (r, w')"
  shows "\<exists>fs rest. generates fs w w'
           \<and> map fst (eligible preferred (processed st) docs) = fs @ rest
           \<and> (isl r \<or> rest = [])"
  using assms
proof (induction docs arbitrary: st w)
  case Nil
  then show ?case by (auto simp: generates_refl)
next
  case (Cons doc docs)
  let ?el = "doc_id (snd doc) \<notin> processed st \<and> doc_name (snd doc) \<noteq> ''discovery''
                \<and> preferred (doc_id (snd doc)) = Some True"
  let ?fs = "if ?el then [fst doc] else []"
  obtain q wa where a: "process_document account preferred doc st w = (q, wa)"
    by (cases "process_document account preferred doc st w")
  note g = process_document_generates [OF a]
  show ?case
  proof (cases q)
    case (Inl e)
    with a Cons.prems have r: "r = Inl e" "w' = wa" by simp_all
    have "doc_id (snd doc) \<notin> processed st"
      using a Inl by (auto simp: process_document_seen)
    then have "\<exists>rest. map fst (eligible preferred (processed st) (doc # docs)) = ?fs @ rest"
      by simp
    with g r show ?thesis by auto
  next
    case (Inr sa)
    with a Cons.prems have b: "process_documents account preferred docs sa wa = (r, w')" by simp
    from a Inr have a': "process_document account preferred doc st w = (Inr sa, wa)" by simp
    from Cons.IH [OF b] obtain fs rest where
      ih: "generates fs wa w'" "map fst (eligible preferred (processed sa) docs) = fs @ rest"
        "isl r \<or> rest = []" by blast
    have "map fst (eligible preferred (processed st) (doc # docs)) = (?fs @ fs) @ rest"
      unfolding eligible_step [OF a'] using ih(2) by simp
    moreover from generates_trans [OF g ih(1)] have "generates (?fs @ fs) w w'" .
    ultimately show ?thesis using ih(3) by blast
  qed
qed

section \<open>The dedup guard\<close>

text \<open>
  C1. A document whose id has been processed leaves the state and the world as they are,
  whatever its content. A document whose id has not been processed has its id recorded
  by every iteration that returns, also when the exclusion filter skips it. So the loop
  over a list of documents is the loop over the first document of each id; a run that
  returns has recorded the id of every document of the list; and in every run, whatever
  its outcome, the generator is called only for first documents of an id that pass the
  exclusion filter, in order and once each (all of them when the run returns).
\<close>

theorem dedup_by_id:
  "(doc_id (snd doc) \<in> processed st \<longrightarrow>
      process_document account preferred doc st w = (Inr st, w))
   \<and> (doc_id (snd doc) \<notin> processed st \<longrightarrow>
        (\<forall>st1 w1. process_document account preferred doc st w = (Inr st1, w1) \<longrightarrow>
           processed st1 = insert (doc_id (snd doc)) (processed st)))
   \<and> (doc_id (snd doc) \<notin> processed st \<and>
        (doc_name (snd doc) = ''discovery'' \<or> preferred (doc_id (snd doc)) = Some False) \<longrightarrow>
        process_document account preferred doc st w
          = (Inr (st\<lparr>processed := insert (doc_id (snd doc)) (processed st)\<rparr>), w))
   \<and> process_documents account preferred docs st w
        = process_documents account preferred (first_by_id (processed st) docs) st w
   \<and> distinct (map (\<lambda>d. doc_id (snd d)) (first_by_id (processed st) docs))
   \<and> (\<lambda>d. doc_id (snd d)) ` set (first_by_id (processed st) docs)
        = (\<lambda>d. doc_id (snd d)) ` set docs - processed st
   \<and> (\<forall>st' w'. process_documents account preferred docs st w = (Inr st', w') \<longrightarrow>
         processed st' = processed st \<union> (\<lambda>d. doc_id (snd d)) ` set docs)
   \<and> (\<exists>fs rest.
         generates fs w (snd (process_documents account preferred docs st w))
         \<and> map fst (filter (\<lambda>d. doc_name (snd d) \<noteq> ''discovery''
                                  \<and> preferred (doc_id (snd d)) = Some True)
                      (first_by_id (processed st) docs)) = fs @ rest
         \<and> (isl (fst (process_documents account preferred docs st w)) \<or> rest = []))"
proof (intro conjI impI allI)
  show "process_documents account preferred docs st w
        = process_documents account preferred (first_by_id (processed st) docs) st w"
    by (rule process_documents_first_by_id)
  show "processed st1 = insert (doc_id (snd doc)) (processed st)"
    if "doc_id (snd doc) \<notin> processed st"
      and "process_document account preferred doc st w = (Inr st1, w1)" for st1 w1
    using process_document_state [OF that(2) that(1)] by blast
  show "processed st' = processed st \<union> (\<lambda>d. doc_id (snd d)) ` set docs"
    if "process_documents account preferred docs st w = (Inr st', w')" for st' w'
    using that by (rule process_documents_processed)
  show "\<exists>fs rest.
         generates fs w (snd (process_documents account preferred docs st w))
         \<and> map fst (filter (\<lambda>d. doc_name (snd d) \<noteq> ''discovery''
                                  \<and> preferred (doc_id (snd d)) = Some True)
                      (first_by_id (processed st) docs)) = fs @ rest
         \<and> (isl (fst (process_documents account preferred docs st w)) \<or> rest = [])"
    using process_documents_generates [of account preferred docs st w
            "fst (process_documents account preferred docs st w)"
            "snd (process_documents account preferred docs st w)"]
    by (simp add: eligible_filter)
qed (simp_all add: process_document_seen process_document_excluded
       first_by_id_distinct first_by_id_ids)

theorem dedup_by_id_witness:
  "doc_id (snd doc_a_copy) \<in> processed state_a
   \<and> process_document example_account (load_preferred (index_items catalog_world)) doc_a_copy state_a
        (cloned catalog_world) = (Inr state_a, cloned catalog_world)
   \<and> doc_id (snd doc_b) \<notin> processed state_a
   \<and> load_preferred (index_items catalog_world) (doc_id (snd doc_b)) = Some False
   \<and> process_document example_account (load_preferred (index_items catalog_world)) doc_b state_a
        (cloned catalog_world)
        = (Inr (state_a\<lparr>processed := insert (doc_id (snd doc_b)) (processed state_a)\<rparr>),
           cloned catalog_world)
   \<and> first_by_id (processed initial_state) run_docs = [doc_a, doc_b, doc_discovery]
   \<and> fst (process_documents example_account (load_preferred (index_items catalog_world)) run_docs
            initial_state (cloned catalog_world)) = Inr state_end
   \<and> processed state_end = processed initial_state \<union> (\<lambda>d. doc_id (snd d)) ` set run_docs
   \<and> generated_files (trace (snd (process_documents example_account
          (load_preferred (index_items catalog_world)) run_docs initial_state (cloned catalog_world))))
        = [''a.json'']"
proof -
  let ?p = "load_preferred (index_items catalog_world)"
  let ?w = "cloned catalog_world"
  let ?run = "process_documents example_account ?p run_docs initial_state ?w"
  have 1: "doc_id (snd doc_a_copy) \<in> processed state_a"
    by (simp add: doc_a_copy_def state_a_def)
  have 2: "doc_id (snd doc_b) \<notin> processed state_a"
    by (simp add: doc_b_def state_a_def)
  have 3: "?p (doc_id (snd doc_b)) = Some False"
    by (simp add: load_preferred_def catalog_world_def doc_b_def)
  note a = dedup_by_id [of doc_a_copy state_a example_account ?p ?w "[]"]
  note b = dedup_by_id [of doc_b state_a example_account ?p ?w "[]"]
  note c = dedup_by_id [of doc_a initial_state example_account ?p ?w run_docs]
  from a [THEN conjunct1] 1
  have 4: "process_document example_account ?p doc_a_copy state_a ?w = (Inr state_a, ?w)"
    by simp
  from b [THEN conjunct2, THEN conjunct2, THEN conjunct1] 2 3
  have 5: "process_document example_account ?p doc_b state_a ?w
        = (Inr (state_a\<lparr>processed := insert (doc_id (snd doc_b)) (processed state_a)\<rparr>), ?w)"
    by (elim impE) (rule conjI, assumption, rule disjI2, assumption+)
  have 6: "first_by_id (processed initial_state) run_docs = [doc_a, doc_b, doc_discovery]"
    by (simp add: run_docs_def initial_state_def doc_a_def doc_a_copy_def doc_b_def doc_discovery_def)
  have 7: "fst ?run = Inr state_end" by code_simp
  then have run: "?run = (Inr state_end, snd ?run)" by (simp add: prod_eq_iff)
  note c7 = c [THEN conjunct2, THEN conjunct2, THEN conjunct2, THEN conjunct2, THEN conjunct2,
                THEN conjunct2, THEN conjunct1]
  note c8 = c [THEN conjunct2, THEN conjunct2, THEN conjunct2, THEN conjunct2, THEN conjunct2,
                THEN conjunct2, THEN conjunct2]
  from c7 [rule_format, OF run] have 8: "processed state_end
                        = processed initial_state \<union> (\<lambda>d. doc_id (snd d)) ` set run_docs" .
  have f: "map fst (filter (\<lambda>d. doc_name (snd d) \<noteq> ''discovery'' \<and> ?p (doc_id (snd d)) = Some True)
             (first_by_id (processed initial_state) run_docs)) = [''a.json'']"
    unfolding 6
    by (simp add: load_preferred_def catalog_world_def doc_a_def doc_b_def doc_discovery_def)
  from c8 obtain fs rest where g: "generates fs ?w (snd ?run)"
    and e: "map fst (filter (\<lambda>d. doc_name (snd d) \<noteq> ''discovery'' \<and> ?p (doc_id (snd d)) = Some True)
             (first_by_id (processed initial_state) run_docs)) = fs @ rest"
    and r: "isl (fst ?run) \<or> rest = []"
    by blast
  from r 7 have "rest = []" by simp
  with e f have "fs = [''a.json'']" by simp
  moreover have "trace ?w = []" by (simp add: cloned_def catalog_world_def example_world_def)
  ultimately have 9: "generated_files (trace (snd ?run)) = [''a.json'']"
    using g by (auto simp: generates_def)
  from 1 2 3 4 5 6 7 8 9 show ?thesis by (intro conjI)
qed

end
